theory Spec2Isabelle
  imports Complex_Main "HOL-Library.Log_Nat"
begin

section \<open>Python numbers\<close>

text \<open>
  \<^verbatim>\<open>save_and_crop_image\<close> computes the scaled size with Python's \<^verbatim>\<open>/\<close> on
  integers and \<^verbatim>\<open>*\<close> of an integer and a float, then truncates with \<^verbatim>\<open>int()\<close>.
  A Python float is an IEEE 754 binary64 number. A finite float is modelled by the
  rational number it denotes; every operation computes the exact result and rounds
  it to the nearest binary64 number, ties to the even significand. Results at or
  beyond \<open>2 ^ 1024\<close> do not exist as finite floats: the operation fails.
\<close>

datatype py_error =
  ZeroDivisionError | OverflowError | ValueError | OSError | UnidentifiedImageError

definition pow2 :: "int \<Rightarrow> rat" where
  "pow2 e = (if 0 \<le> e then 2 ^ nat e else 1 / 2 ^ nat (- e))"

definition round_half_even :: "rat \<Rightarrow> int" where
  "round_half_even x =
     (let f = \<lfloor>x\<rfloor>; r = x - of_int f
      in if r < 1 / 2 then f
         else if 1 / 2 < r then f + 1
         else if even f then f else f + 1)"

definition ilog2 :: "rat \<Rightarrow> int" where
  \<comment> \<open>For \<open>0 < x\<close>: the exponent \<open>e\<close> with \<open>2 ^ e \<le> x < 2 ^ (e + 1)\<close>.\<close>
  "ilog2 x =
     (let (n, d) = quotient_of x; e0 = bitlen n - bitlen d
      in if pow2 e0 \<le> x then e0 else e0 - 1)"

definition float_exponent :: "rat \<Rightarrow> int" where
  \<comment> \<open>Below \<open>2 ^ - 1022\<close> the numbers are subnormal: the exponent stays at \<open>- 1022\<close>.\<close>
  "float_exponent x = max (ilog2 x) (- 1022)"

definition float_round_pos :: "rat \<Rightarrow> rat" where
  "float_round_pos x =
     (let u = pow2 (float_exponent x - 52)
      in of_int (round_half_even (x / u)) * u)"

definition float_round :: "rat \<Rightarrow> py_error + rat" where
  "float_round x =
     (let y = (if x = 0 then 0
               else if 0 < x then float_round_pos x
               else - float_round_pos (- x))
      in if \<bar>y\<bar> < pow2 1024 then Inr y else Inl OverflowError)"

definition py_truediv :: "int \<Rightarrow> int \<Rightarrow> py_error + rat" where
  \<comment> \<open>\<^verbatim>\<open>a / b\<close> on two ints: correctly rounded; raises on a zero divisor.\<close>
  "py_truediv a b =
     (if b = 0 then Inl ZeroDivisionError else float_round (of_int a / of_int b))"

definition py_int_times_float :: "int \<Rightarrow> rat \<Rightarrow> py_error + rat" where
  \<comment> \<open>\<^verbatim>\<open>n * x\<close>: the int is converted to a float first, then the product is rounded.
      An infinite product does not raise here, but the \<^verbatim>\<open>int()\<close> that follows in the
      source does, with the same exception.\<close>
  "py_int_times_float n x =
     (case float_round (of_int n) of
        Inl e \<Rightarrow> Inl e
      | Inr nf \<Rightarrow> float_round (nf * x))"

definition py_int_of_float :: "rat \<Rightarrow> int" where
  \<comment> \<open>\<^verbatim>\<open>int(x)\<close> truncates towards zero.\<close>
  "py_int_of_float x = (if 0 \<le> x then \<lfloor>x\<rfloor> else \<lceil>x\<rceil>)"

section \<open>The resize and crop arithmetic of \<^verbatim>\<open>save_and_crop_image\<close>\<close>

text \<open>
  Lines 111 to 123 of \<^verbatim>\<open>app.py\<close>: the size the image is resized to.
\<close>

definition scaled_size :: "int \<Rightarrow> int \<Rightarrow> int \<Rightarrow> int \<Rightarrow> py_error + (int \<times> int)" where
  "scaled_size width height target_w target_h =
     (case py_truediv width height of Inl e \<Rightarrow> Inl e | Inr img_ratio \<Rightarrow>
      case py_truediv target_w target_h of Inl e \<Rightarrow> Inl e | Inr target_ratio \<Rightarrow>
      if target_ratio < img_ratio then
        (let new_height = target_h in
         case py_truediv new_height height of Inl e \<Rightarrow> Inl e | Inr scale \<Rightarrow>
         case py_int_times_float width scale of Inl e \<Rightarrow> Inl e | Inr p \<Rightarrow>
         Inr (py_int_of_float p, new_height))
      else
        (let new_width = target_w in
         case py_truediv new_width width of Inl e \<Rightarrow> Inl e | Inr scale \<Rightarrow>
         case py_int_times_float height scale of Inl e \<Rightarrow> Inl e | Inr p \<Rightarrow>
         Inr (new_width, py_int_of_float p)))"

text \<open>
  Lines 128 to 131: the crop box \<open>(left, top, right, bottom)\<close> (\<open>top\<close> and \<open>bottom\<close> are
  constants of HOL, so the model writes \<open>top_y\<close> and \<open>bottom_y\<close>). Python's \<^verbatim>\<open>//\<close>
  rounds towards minus infinity, as \<open>div\<close> on \<open>int\<close> does.
\<close>

definition crop_box :: "int \<times> int \<Rightarrow> int \<Rightarrow> int \<Rightarrow> int \<times> int \<times> int \<times> int" where
  "crop_box new_size target_w target_h =
     (let left = (fst new_size - target_w) div 2;
          top_y = (snd new_size - target_h) div 2;
          right = left + target_w;
          bottom_y = top_y + target_h
      in (left, top_y, right, bottom_y))"

definition box_inside :: "int \<times> int \<times> int \<times> int \<Rightarrow> int \<times> int \<Rightarrow> bool" where
  \<comment> \<open>The box lies within an image of the given size.\<close>
  "box_inside box sz =
     (case box of (left, top_y, right, bottom_y) \<Rightarrow>
        0 \<le> left \<and> 0 \<le> top_y \<and> right \<le> fst sz \<and> bottom_y \<le> snd sz)"

section \<open>Python strings\<close>

text \<open>
  A string is a list of characters, each a code point below 256. \<^verbatim>\<open>str.strip()\<close> and
  \<^verbatim>\<open>str.split()\<close> without arguments work on the characters for which
  \<^verbatim>\<open>str.isspace()\<close> holds: in this range the codes 9 to 13, 28 to 32, 133 and 160.
\<close>

definition isspace :: "char \<Rightarrow> bool" where
  "isspace c =
     (let n = (of_char c :: nat)
      in (9 \<le> n \<and> n \<le> 13) \<or> (28 \<le> n \<and> n \<le> 32) \<or> n = 133 \<or> n = 160)"

definition strip_chars :: "(char \<Rightarrow> bool) \<Rightarrow> string \<Rightarrow> string" where
  "strip_chars p s = rev (dropWhile p (rev (dropWhile p s)))"

definition strip :: "string \<Rightarrow> string" where
  \<comment> \<open>\<^verbatim>\<open>s.strip()\<close>\<close>
  "strip s = strip_chars isspace s"

fun split_from :: "string \<Rightarrow> string \<Rightarrow> string list" where
  \<comment> \<open>\<^verbatim>\<open>s.split()\<close>: the maximal runs of non-space characters; the first argument is
      the run read so far.\<close>
  "split_from cur [] = (if cur = [] then [] else [cur])"
| "split_from cur (c # cs) =
     (if isspace c then (if cur = [] then split_from [] cs else cur # split_from [] cs)
      else split_from (cur @ [c]) cs)"

definition split :: "string \<Rightarrow> string list" where
  "split s = split_from [] s"

fun join :: "string \<Rightarrow> string list \<Rightarrow> string" where
  \<comment> \<open>\<^verbatim>\<open>sep.join(words)\<close>\<close>
  "join sep [] = []"
| "join sep [w] = w"
| "join sep (w # ws) = w @ sep @ join sep ws"

definition lower_char :: "char \<Rightarrow> char" where
  \<comment> \<open>The capital letters below 256: A to Z, and the codes 192 to 222 except 215, the
      multiplication sign.\<close>
  "lower_char c =
     (let n = (of_char c :: nat)
      in if (65 \<le> n \<and> n \<le> 90) \<or> (192 \<le> n \<and> n \<le> 222 \<and> n \<noteq> 215)
         then char_of (n + 32) else c)"

definition lower :: "string \<Rightarrow> string" where
  \<comment> \<open>\<^verbatim>\<open>s.lower()\<close>\<close>
  "lower s = map lower_char s"

definition after_last :: "char \<Rightarrow> string \<Rightarrow> string" where
  \<comment> \<open>\<^verbatim>\<open>s.rsplit(c, 1)[1]\<close> for a string that contains \<open>c\<close>.\<close>
  "after_last c s = rev (takeWhile (\<lambda>x. x \<noteq> c) (rev s))"

definition before_last :: "char \<Rightarrow> string \<Rightarrow> string" where
  \<comment> \<open>The part before the last \<open>c\<close> (\<^verbatim>\<open>s[:s.rfind(c)]\<close>) for a string that contains \<open>c\<close>.\<close>
  "before_last c s = rev (drop 1 (dropWhile (\<lambda>x. x \<noteq> c) (rev s)))"

section \<open>File names\<close>

text \<open>
  \<^verbatim>\<open>werkzeug.utils.secure_filename\<close> on a POSIX system: the name is normalised
  (\<^verbatim>\<open>unicodedata.normalize("NFKD", filename)\<close>) and encoded to ASCII with the
  characters that are not ASCII ignored, \<^verbatim>\<open>/\<close> becomes a space, runs of white space
  become one \<^verbatim>\<open>_\<close>, every character other than a letter, a digit, \<^verbatim>\<open>_\<close>, \<^verbatim>\<open>.\<close> and
  \<^verbatim>\<open>-\<close> is deleted, and dots and underscores are stripped from both ends.

  The normalisation decomposes each character by itself. An ASCII character stays;
  of the decomposition of a code point from 128 to 255 the table below keeps the
  ASCII part: the no-break space and the spacing accents give a space, an accented
  letter gives its base letter, the superscript digits and the ordinal indicators
  give the digit or letter, a fraction gives its two digits, and the other code
  points give nothing. The table starts at code point 128, eight entries to a line.
\<close>

definition nfkd_ascii_table :: "string list" where
  "nfkd_ascii_table =
     [
      [], [], [], [], [], [], [], [],
      [], [], [], [], [], [], [], [],
      [], [], [], [], [], [], [], [],
      [], [], [], [], [], [], [], [],
      '' '', [], [], [], [], [], [], [],
      '' '', [], ''a'', [], [], [], [], '' '',
      [], [], ''2'', ''3'', '' '', [], [], [],
      '' '', ''1'', ''o'', [], ''14'', ''12'', ''34'', [],
      ''A'', ''A'', ''A'', ''A'', ''A'', ''A'', [], ''C'',
      ''E'', ''E'', ''E'', ''E'', ''I'', ''I'', ''I'', ''I'',
      [], ''N'', ''O'', ''O'', ''O'', ''O'', ''O'', [],
      [], ''U'', ''U'', ''U'', ''U'', ''Y'', [], [],
      ''a'', ''a'', ''a'', ''a'', ''a'', ''a'', [], ''c'',
      ''e'', ''e'', ''e'', ''e'', ''i'', ''i'', ''i'', ''i'',
      [], ''n'', ''o'', ''o'', ''o'', ''o'', ''o'', [],
      [], ''u'', ''u'', ''u'', ''u'', ''y'', [], ''y''
     ]"

definition nfkd_ascii :: "char \<Rightarrow> string" where
  \<comment> \<open>A character has a code below 256, so the index is below 128.\<close>
  "nfkd_ascii c =
     (let n = (of_char c :: nat)
      in if n < 128 then [c] else nfkd_ascii_table ! (n - 128))"

definition filename_char :: "char \<Rightarrow> bool" where
  \<comment> \<open>The characters that the pattern \<^verbatim>\<open>[^A-Za-z0-9_.-]\<close> does not match.\<close>
  "filename_char c =
     (let n = (of_char c :: nat)
      in (65 \<le> n \<and> n \<le> 90) \<or> (97 \<le> n \<and> n \<le> 122) \<or> (48 \<le> n \<and> n \<le> 57)
         \<or> c = CHR ''_'' \<or> c = CHR ''.'' \<or> c = CHR ''-'')"

definition secure_filename :: "string \<Rightarrow> string" where
  "secure_filename filename =
     (let ascii = concat (map nfkd_ascii filename);
          spaced = map (\<lambda>c. if c = CHR ''/'' then CHR '' '' else c) ascii;
          joined = join ''_'' (split spaced);
          kept = filter filename_char joined
      in strip_chars (\<lambda>c. c = CHR ''.'' \<or> c = CHR ''_'') kept)"

definition ALLOWED_EXTENSIONS :: "string list" where
  "ALLOWED_EXTENSIONS = [''png'', ''jpg'', ''jpeg'', ''gif'']"

definition allowed_file :: "string \<Rightarrow> bool" where
  "allowed_file filename =
     (CHR ''.'' \<in> set filename
      \<and> lower (after_last (CHR ''.'') filename) \<in> set ALLOWED_EXTENSIONS)"

definition splitext :: "string \<Rightarrow> string \<times> string" where
  \<comment> \<open>\<^verbatim>\<open>os.path.splitext\<close> (\<^verbatim>\<open>posixpath\<close>): the extension starts at the last dot of the
      last path component, unless only dots precede it there.\<close>
  "splitext p =
     (let base = after_last (CHR ''/'') p;
          stem = before_last (CHR ''.'') base
      in if CHR ''.'' \<in> set base \<and> filter (\<lambda>c. c \<noteq> CHR ''.'') stem \<noteq> []
         then (before_last (CHR ''.'') p, CHR ''.'' # after_last (CHR ''.'') base)
         else (p, []))"

section \<open>The upload folder and the image library\<close>

text \<open>
  The upload folder maps a file name to what the file holds: the raw bytes of an
  upload, a JPEG written by \<^verbatim>\<open>img.save(final_path, format='JPEG', quality=90)\<close> (its
  quality and pixel size), or the remains of a write that failed half way.
  Printed lines are kept in a log.
\<close>

datatype file_content =
  Raw_upload string
| Jpeg_image (quality: nat) (pixel_width: int) (pixel_height: int)
| Partial_write

type_synonym folder = "string \<rightharpoonup> file_content"

datatype log_line =
  Image_processing_error py_error
| Error_deleting_image py_error

datatype 'a outcome = Returns 'a | Raises py_error

datatype write_outcome = Written | Failed_no_file | Failed_partial_file

text \<open>
  What the file system and the image library do is not decided by \<^verbatim>\<open>app.py\<close>; it is
  a parameter of the model. \<open>uuid1\<close> and \<open>uuid2\<close> are the values of the two calls of
  \<^verbatim>\<open>uuid4().hex\<close>, in the order of the source. \<open>decode\<close> gives the pixel size of the
  image that \<^verbatim>\<open>Image.open\<close> and \<^verbatim>\<open>convert('RGB')\<close> produce from the bytes, or nothing
  when either raises.
\<close>

record env =
  uuid1 :: string
  uuid2 :: string
  save_outcome :: write_outcome
  decode :: "string \<Rightarrow> (int \<times> int) option"
  resize_ok :: "int \<times> int \<Rightarrow> bool"
  crop_ok :: "int \<times> int \<times> int \<times> int \<Rightarrow> bool"
  encode_outcome :: write_outcome
  remove_ok :: "string \<Rightarrow> bool"

record file_storage =
  filename :: "string option"
  stream :: string

record disk =
  files :: folder
  log :: "log_line list"

definition os_path_exists :: "string \<Rightarrow> folder \<Rightarrow> bool" where
  "os_path_exists path fs = (fs path \<noteq> None)"

definition os_remove :: "env \<Rightarrow> string \<Rightarrow> folder \<Rightarrow> unit outcome \<times> folder" where
  "os_remove e path fs =
     (if remove_ok e path then (Returns (), fs(path := None)) else (Raises OSError, fs))"

definition write_file :: "write_outcome \<Rightarrow> string \<Rightarrow> file_content \<Rightarrow> folder \<Rightarrow> unit outcome \<times> folder" where
  "write_file w path content fs =
     (case w of
        Written \<Rightarrow> (Returns (), fs(path \<mapsto> content))
      | Failed_no_file \<Rightarrow> (Raises OSError, fs)
      | Failed_partial_file \<Rightarrow> (Raises OSError, fs(path \<mapsto> Partial_write)))"

section \<open>\<^verbatim>\<open>save_and_crop_image\<close>\<close>

text \<open>
  Lines 103 to 135, the body of the \<^verbatim>\<open>try\<close>: save the upload under the temporary
  name, decode it, resize, crop, and write the JPEG under the final name. The image
  that \<^verbatim>\<open>crop\<close> returns has the size of the box, whether or not the box lies inside
  the image it is cut from.
\<close>

definition process_upload ::
  "env \<Rightarrow> string \<Rightarrow> string \<Rightarrow> string \<Rightarrow> int \<Rightarrow> int \<Rightarrow> folder \<Rightarrow> unit outcome \<times> folder" where
  "process_upload e bytes tmp_path final_path target_w target_h fs =
     (case write_file (save_outcome e) tmp_path (Raw_upload bytes) fs of
        (Raises x, fs1) \<Rightarrow> (Raises x, fs1)
      | (Returns _, fs1) \<Rightarrow>
     (case decode e bytes of
        None \<Rightarrow> (Raises UnidentifiedImageError, fs1)
      | Some (width, height) \<Rightarrow>
     (case scaled_size width height target_w target_h of
        Inl x \<Rightarrow> (Raises x, fs1)
      | Inr new_size \<Rightarrow>
     if \<not> resize_ok e new_size then (Raises ValueError, fs1)
     else
       (let box = crop_box new_size target_w target_h
        in if \<not> crop_ok e box then (Raises ValueError, fs1)
           else
             (case box of (left, top_y, right, bottom_y) \<Rightarrow>
                write_file (encode_outcome e) final_path
                  (Jpeg_image 90 (right - left) (bottom_y - top_y)) fs1)))))"

text \<open>
  Lines 140 to 144 and 148 to 152: remove the temporary file if it exists; an
  exception of \<^verbatim>\<open>os.remove\<close> is caught and dropped (\<^verbatim>\<open>except Exception: pass\<close>).
\<close>

definition remove_tmp :: "env \<Rightarrow> string \<Rightarrow> folder \<Rightarrow> unit outcome \<times> folder" where
  "remove_tmp e tmp_path fs =
     (if os_path_exists tmp_path fs then
        (case os_remove e tmp_path fs of
           (Raises x, fs') \<Rightarrow> (Returns (), fs')
         | (Returns _, fs') \<Rightarrow> (Returns (), fs'))
      else (Returns (), fs))"

definition unique_name_of :: "env \<Rightarrow> string \<Rightarrow> string" where
  \<comment> \<open>Lines 91 to 95: \<^verbatim>\<open>f"{name}_{uuid4().hex}{final_ext}"\<close>\<close>
  "unique_name_of e fname = fst (splitext fname) @ ''_'' @ uuid1 e @ ''.jpg''"

definition tmp_name_of :: "env \<Rightarrow> string \<Rightarrow> string" where
  \<comment> \<open>Line 99: \<^verbatim>\<open>f"{name}_{uuid4().hex}{_ext}"\<close>\<close>
  "tmp_name_of e fname = fst (splitext fname) @ ''_'' @ uuid2 e @ snd (splitext fname)"

definition save_and_crop_image ::
  "env \<Rightarrow> file_storage option \<Rightarrow> int \<Rightarrow> int \<Rightarrow> disk \<Rightarrow> string option outcome \<times> disk" where
  "save_and_crop_image e upload target_w target_h d =
     (case upload of
        None \<Rightarrow> (Returns None, d)
      | Some f \<Rightarrow>
     (case filename f of
        None \<Rightarrow> (Returns None, d)
      | Some supplied_name \<Rightarrow>
     if supplied_name = [] then (Returns None, d)
     else
       (let fname = secure_filename supplied_name
        in if \<not> allowed_file fname then (Returns None, d)
           else
             (let unique_name = unique_name_of e fname;
                  tmp_name = tmp_name_of e fname
              in case process_upload e (stream f) tmp_name unique_name target_w target_h (files d) of
                   (Raises x, fs1) \<Rightarrow>
                     (case remove_tmp e tmp_name fs1 of
                        (Raises y, fs2) \<Rightarrow>
                          (Raises y, \<lparr>files = fs2, log = log d @ [Image_processing_error x]\<rparr>)
                      | (Returns _, fs2) \<Rightarrow>
                          (Returns None, \<lparr>files = fs2, log = log d @ [Image_processing_error x]\<rparr>))
                 | (Returns _, fs1) \<Rightarrow>
                     (case remove_tmp e tmp_name fs1 of
                        (Raises y, fs2) \<Rightarrow> (Raises y, \<lparr>files = fs2, log = log d\<rparr>)
                      | (Returns _, fs2) \<Rightarrow> (Returns (Some unique_name), \<lparr>files = fs2, log = log d\<rparr>))))))"

section \<open>The store\<close>

text \<open>
  Each table has \<^verbatim>\<open>id INTEGER PRIMARY KEY AUTOINCREMENT\<close>: a row is found by its id,
  and an insert takes the next id, which is never given out again.
\<close>

record 'r table =
  rows :: "int \<rightharpoonup> 'r"
  next_id :: int

definition insert_row :: "'r \<Rightarrow> 'r table \<Rightarrow> 'r table" where
  "insert_row r t = \<lparr>rows = (rows t)(next_id t \<mapsto> r), next_id = next_id t + 1\<rparr>"


record project =
  project_name :: string
  project_description :: string
  project_image_filename :: "string option"

record client =
  client_name :: string
  client_designation :: string
  client_description :: string
  client_image_filename :: "string option"

record contact =
  full_name :: string
  email :: string
  mobile :: string
  city :: string
  created_at :: string

record subscription =
  sub_email :: string
  sub_created_at :: string

datatype category = success | error

record app_state =
  projects :: "project table"
  clients :: "client table"
  contacts :: "contact table"
  subscriptions :: "subscription table"
  uploads :: disk
  flashes :: "(string \<times> category) list"

datatype response = Redirect string | Render string

definition flash :: "string \<Rightarrow> category \<Rightarrow> app_state \<Rightarrow> app_state" where
  "flash msg cat s = s\<lparr>flashes := flashes s @ [(msg, cat)]\<rparr>"

definition form_get :: "(string \<rightharpoonup> string) \<Rightarrow> string \<Rightarrow> string" where
  \<comment> \<open>\<^verbatim>\<open>request.form.get(key, '')\<close>\<close>
  "form_get form key = (case form key of None \<Rightarrow> [] | Some v \<Rightarrow> v)"

section \<open>Public routes\<close>

definition contact_submit :: "(string \<rightharpoonup> string) \<Rightarrow> string \<Rightarrow> app_state \<Rightarrow> response \<times> app_state" where
  \<comment> \<open>The second argument is \<^verbatim>\<open>datetime.utcnow().isoformat()\<close>.\<close>
  "contact_submit form now s =
     (let fn = strip (form_get form ''full_name'');
          em = strip (form_get form ''email'');
          mo = strip (form_get form ''mobile'');
          ci = strip (form_get form ''city'')
      in if \<not> (fn \<noteq> [] \<and> em \<noteq> [] \<and> mo \<noteq> [] \<and> ci \<noteq> []) then
           (Redirect ''index'', flash ''Please fill all contact form fields.'' error s)
         else
           (Redirect ''index'',
            flash ''Thank you! Your contact details have been submitted.'' success
              (s\<lparr>contacts := insert_row
                    \<lparr>full_name = fn, email = em, mobile = mo, city = ci, created_at = now\<rparr>
                    (contacts s)\<rparr>)))"

definition subscribe :: "(string \<rightharpoonup> string) \<Rightarrow> string \<Rightarrow> app_state \<Rightarrow> response \<times> app_state" where
  "subscribe form now s =
     (let em = strip (form_get form ''email'')
      in if em = [] then
           (Redirect ''index'', flash ''Please enter an email address.'' error s)
         else
           (Redirect ''index'',
            flash ''Subscribed successfully!'' success
              (s\<lparr>subscriptions := insert_row \<lparr>sub_email = em, sub_created_at = now\<rparr>
                    (subscriptions s)\<rparr>)))"

section \<open>Admin routes\<close>

datatype http_method = GET | POST

definition has_image :: "file_storage option \<Rightarrow> bool" where
  \<comment> \<open>\<^verbatim>\<open>image and image.filename\<close> (\<open>image\<close> is a constant of HOL)\<close>
  "has_image image_file =
     (case image_file of None \<Rightarrow> False
      | Some f \<Rightarrow> (case filename f of None \<Rightarrow> False | Some n \<Rightarrow> n \<noteq> []))"

definition store_image :: "env \<Rightarrow> file_storage option \<Rightarrow> app_state \<Rightarrow> string option outcome \<times> app_state" where
  \<comment> \<open>Lines 221 to 224 and 268 to 271: the file name to store with the row.\<close>
  "store_image e image_file s =
     (if has_image image_file then
        (case save_and_crop_image e image_file 450 350 (uploads s) of
           (r, d) \<Rightarrow> (r, s\<lparr>uploads := d\<rparr>))
      else (Returns None, s))"

definition admin_projects ::
  "env \<Rightarrow> http_method \<Rightarrow> (string \<rightharpoonup> string) \<Rightarrow> file_storage option \<Rightarrow> app_state
     \<Rightarrow> response outcome \<times> app_state" where
  "admin_projects e method form image_file s =
     (case method of
        GET \<Rightarrow> (Returns (Render ''admin/projects.html''), s)
      | POST \<Rightarrow>
          (let name = strip (form_get form ''name'');
               description = strip (form_get form ''description'')
           in case store_image e image_file s of
                (Raises x, s1) \<Rightarrow> (Raises x, s1)
              | (Returns fname, s1) \<Rightarrow>
                  if \<not> (name \<noteq> [] \<and> description \<noteq> []) then
                    (Returns (Render ''admin/projects.html''),
                     flash ''Please provide project name and description.'' error s1)
                  else
                    (Returns (Render ''admin/projects.html''),
                     flash ''Project added!'' success
                       (s1\<lparr>projects := insert_row
                             \<lparr>project_name = name, project_description = description,
                              project_image_filename = fname\<rparr>
                             (projects s1)\<rparr>))))"

definition admin_clients ::
  "env \<Rightarrow> http_method \<Rightarrow> (string \<rightharpoonup> string) \<Rightarrow> file_storage option \<Rightarrow> app_state
     \<Rightarrow> response outcome \<times> app_state" where
  "admin_clients e method form image_file s =
     (case method of
        GET \<Rightarrow> (Returns (Render ''admin/clients.html''), s)
      | POST \<Rightarrow>
          (let name = strip (form_get form ''name'');
               designation = strip (form_get form ''designation'');
               description = strip (form_get form ''description'')
           in case store_image e image_file s of
                (Raises x, s1) \<Rightarrow> (Raises x, s1)
              | (Returns fname, s1) \<Rightarrow>
                  if \<not> (name \<noteq> [] \<and> designation \<noteq> [] \<and> description \<noteq> []) then
                    (Returns (Render ''admin/clients.html''),
                     flash ''Please provide client name, designation and description.'' error s1)
                  else
                    (Returns (Render ''admin/clients.html''),
                     flash ''Client added!'' success
                       (s1\<lparr>clients := insert_row
                             \<lparr>client_name = name, client_designation = designation,
                              client_description = description,
                              client_image_filename = fname\<rparr>
                             (clients s1)\<rparr>))))"






section \<open>Schema creation\<close>

text \<open>
  \<^verbatim>\<open>init_db\<close> runs a script of four \<^verbatim>\<open>CREATE TABLE IF NOT EXISTS\<close> statements. A
  schema maps a table name to its columns. \<^verbatim>\<open>CREATE TABLE\<close> on a name that exists is
  an error unless the statement says \<^verbatim>\<open>IF NOT EXISTS\<close>, and then it does nothing; a
  script stops at the first error.
\<close>

datatype sql_type = INTEGER | TEXT

datatype column_constraint = PRIMARY_KEY_AUTOINCREMENT | NOT_NULL | NULLABLE

type_synonym column = "string \<times> sql_type \<times> column_constraint"

type_synonym schema = "string \<rightharpoonup> column list"

datatype sql_error = Table_already_exists string

datatype statement = CREATE_TABLE bool string "column list"

fun execute :: "statement \<Rightarrow> schema \<Rightarrow> sql_error + schema" where
  "execute (CREATE_TABLE if_not_exists name cols) db =
     (if db name \<noteq> None then (if if_not_exists then Inr db else Inl (Table_already_exists name))
      else Inr (db(name \<mapsto> cols)))"

fun executescript :: "statement list \<Rightarrow> schema \<Rightarrow> sql_error + schema" where
  "executescript [] db = Inr db"
| "executescript (st # sts) db =
     (case execute st db of Inl x \<Rightarrow> Inl x | Inr db' \<Rightarrow> executescript sts db')"

definition projects_columns :: "column list" where
  "projects_columns =
     [(''id'', INTEGER, PRIMARY_KEY_AUTOINCREMENT), (''name'', TEXT, NOT_NULL),
      (''description'', TEXT, NOT_NULL), (''image_filename'', TEXT, NULLABLE)]"

definition clients_columns :: "column list" where
  "clients_columns =
     [(''id'', INTEGER, PRIMARY_KEY_AUTOINCREMENT), (''name'', TEXT, NOT_NULL),
      (''designation'', TEXT, NOT_NULL), (''description'', TEXT, NOT_NULL),
      (''image_filename'', TEXT, NULLABLE)]"

definition contacts_columns :: "column list" where
  "contacts_columns =
     [(''id'', INTEGER, PRIMARY_KEY_AUTOINCREMENT), (''full_name'', TEXT, NOT_NULL),
      (''email'', TEXT, NOT_NULL), (''mobile'', TEXT, NOT_NULL), (''city'', TEXT, NOT_NULL),
      (''created_at'', TEXT, NOT_NULL)]"

definition subscriptions_columns :: "column list" where
  "subscriptions_columns =
     [(''id'', INTEGER, PRIMARY_KEY_AUTOINCREMENT), (''email'', TEXT, NOT_NULL),
      (''created_at'', TEXT, NOT_NULL)]"

definition init_script :: "statement list" where
  "init_script =
     [CREATE_TABLE True ''projects'' projects_columns,
      CREATE_TABLE True ''clients'' clients_columns,
      CREATE_TABLE True ''contacts'' contacts_columns,
      CREATE_TABLE True ''subscriptions'' subscriptions_columns]"

definition init_db :: "schema \<Rightarrow> sql_error + schema" where
  "init_db db = executescript init_script db"

text \<open>Running \<^verbatim>\<open>init_db\<close> several times in a row on the same store.\<close>

fun run_init :: "nat \<Rightarrow> schema \<Rightarrow> sql_error + schema" where
  "run_init 0 db = Inr db"
| "run_init (Suc n) db = (case init_db db of Inl x \<Rightarrow> Inl x | Inr db' \<Rightarrow> run_init n db')"

fun if_not_exists :: "statement \<Rightarrow> bool" where
  "if_not_exists (CREATE_TABLE b n c) = b"

fun table_name :: "statement \<Rightarrow> string" where
  "table_name (CREATE_TABLE b n c) = n"

section \<open>Example values\<close>

text \<open>
  A form whose fields are those of another form with white space put around each
  value (a field that is missing counts as empty).
\<close>

definition padded :: "(string \<Rightarrow> string) \<Rightarrow> (string \<Rightarrow> string) \<Rightarrow> (string \<rightharpoonup> string) \<Rightarrow> (string \<rightharpoonup> string)" where
  "padded pre post form = (\<lambda>k. Some (pre k @ form_get form k @ post k))"

definition jane_form :: "string \<rightharpoonup> string" where
  "jane_form = [''full_name'' \<mapsto> ''Jane Doe'', ''email'' \<mapsto> ''jane_form@x.com'',
           ''mobile'' \<mapsto> ''555-0100'', ''city'' \<mapsto> ''Austin'']"

definition initial_state :: app_state where
  "initial_state =
     \<lparr>projects = \<lparr>rows = Map.empty, next_id = 1\<rparr>, clients = \<lparr>rows = Map.empty, next_id = 1\<rparr>,
      contacts = \<lparr>rows = Map.empty, next_id = 1\<rparr>, subscriptions = \<lparr>rows = Map.empty, next_id = 1\<rparr>,
      uploads = \<lparr>files = Map.empty, log = []\<rparr>, flashes = []\<rparr>"

text \<open>
  An environment in which nothing fails and every upload decodes to an image of
  900 by 350 pixels, an upload, and an empty upload folder.
\<close>

definition example_env :: env where
  "example_env =
     \<lparr>uuid1 = ''0123456789abcdef0123456789abcdef'',
      uuid2 = ''fedcba9876543210fedcba9876543210'',
      save_outcome = Written,
      decode = (\<lambda>bytes. Some (900, 350)),
      resize_ok = (\<lambda>new_size. True),
      crop_ok = (\<lambda>box. True),
      encode_outcome = Written,
      remove_ok = (\<lambda>path. True)\<rparr>"

definition example_upload :: "string \<Rightarrow> file_storage" where
  "example_upload supplied_name = \<lparr>filename = Some supplied_name, stream = ''image bytes''\<rparr>"

definition empty_disk :: disk where
  "empty_disk = \<lparr>files = Map.empty, log = []\<rparr>"

text \<open>
  Two forms for \<^verbatim>\<open>/admin/projects\<close>, the second with a name of spaces only, and a
  state with one project that has an image.
\<close>

definition house_form :: "string \<rightharpoonup> string" where
  "house_form = [''name'' \<mapsto> '' Lake House '', ''description'' \<mapsto> ''Three bedrooms'']"

definition blank_name_form :: "string \<rightharpoonup> string" where
  "blank_name_form = [''name'' \<mapsto> ''   '', ''description'' \<mapsto> ''Three bedrooms'']"


section \<open>Rounding to a float\<close>

lemma pow2_powi: "pow2 e = 2 powi e"
  by (simp add: pow2_def power_int_def inverse_eq_divide power_one_over)

lemma pow2_pos: "0 < pow2 e"
  by (simp add: pow2_powi)

lemma pow2_add: "pow2 (a + b) = pow2 a * pow2 b"
  by (simp add: pow2_powi power_int_add)

lemma pow2_mono: "a \<le> b \<Longrightarrow> pow2 a \<le> pow2 b"
  by (simp add: pow2_powi power_int_increasing)

lemma pow2_strict_mono: "a < b \<Longrightarrow> pow2 a < pow2 b"
  by (simp add: pow2_powi power_int_strict_increasing)

lemma bitlen_rat_bounds:
  assumes "0 < n"
  shows "pow2 (bitlen n - 1) \<le> of_int n" and "of_int n < pow2 (bitlen n)"
proof -
  from bitlen_bounds [OF assms]
  have lo: "2 ^ nat (bitlen n - 1) \<le> n" and hi: "n < 2 ^ nat (bitlen n)" by simp_all
  have b1: "1 \<le> bitlen n" using assms bitlen_eq_zero_iff [of n] bitlen_nonneg [of n] by linarith
  have "(of_int (2 ^ nat (bitlen n - 1)) :: rat) \<le> of_int n" using lo by (simp only: of_int_le_iff)
  then show "pow2 (bitlen n - 1) \<le> of_int n" using b1 by (simp add: pow2_def)
  have "(of_int n :: rat) < of_int (2 ^ nat (bitlen n))" using hi by (simp only: of_int_less_iff)
  then show "of_int n < pow2 (bitlen n)" using b1 by (simp add: pow2_def)
qed

lemma ilog2_bounds:
  assumes "0 < x"
  shows "pow2 (ilog2 x) \<le> x \<and> x < pow2 (ilog2 x + 1)"
proof -
  obtain n d where q: "quotient_of x = (n, d)" by force
  have d: "0 < d" using quotient_of_denom_pos [OF q] .
  have x: "x = of_int n / of_int d" using quotient_of_div [OF q] .
  have n: "0 < n" using assms d x by (simp add: zero_less_divide_iff)
  define e0 where "e0 = bitlen n - bitlen d"
  note bn = bitlen_rat_bounds [OF n] and bd = bitlen_rat_bounds [OF d]
  have dpos: "(0::rat) < of_int d" using d by simp
  have "x * of_int d = of_int n" using x dpos by simp
  have up: "x < pow2 (e0 + 1)"
  proof -
    have "of_int n < pow2 (bitlen n)" by (rule bn)
    also have "\<dots> = pow2 (e0 + 1) * pow2 (bitlen d - 1)"
      by (simp add: pow2_add [symmetric] e0_def)
    also have "\<dots> \<le> pow2 (e0 + 1) * of_int d"
      using bd(1) pow2_pos [of "e0 + 1"] by simp
    finally show ?thesis using dpos by (simp add: x pos_divide_less_eq)
  qed
  have lo: "pow2 (e0 - 1) \<le> x"
  proof -
    have "pow2 (e0 - 1) * of_int d \<le> pow2 (e0 - 1) * pow2 (bitlen d)"
      using bd(2) pow2_pos [of "e0 - 1"] by simp
    also have "\<dots> = pow2 (bitlen n - 1)"
      by (simp add: pow2_add [symmetric] e0_def)
    also have "\<dots> \<le> of_int n" by (rule bn)
    finally show ?thesis using dpos by (simp add: x pos_le_divide_eq)
  qed
  have il: "ilog2 x = (if pow2 e0 \<le> x then e0 else e0 - 1)"
    by (simp add: ilog2_def q e0_def Let_def)
  show ?thesis
  proof (cases "pow2 e0 \<le> x")
    case True
    then show ?thesis using up il by simp
  next
    case False
    then show ?thesis using lo il by simp
  qed
qed

lemma ilog2_unique:
  assumes "0 < x" "pow2 e \<le> x" "x < pow2 (e + 1)"
  shows "ilog2 x = e"
proof (rule ccontr)
  assume ne: "ilog2 x \<noteq> e"
  note b = ilog2_bounds [OF assms(1)]
  show False
  proof (cases "ilog2 x < e")
    case True
    then have "pow2 (ilog2 x + 1) \<le> pow2 e" by (intro pow2_mono) simp
    then show False using b assms by linarith
  next
    case False
    then have "e + 1 \<le> ilog2 x" using ne by simp
    then have "pow2 (e + 1) \<le> pow2 (ilog2 x)" by (rule pow2_mono)
    then show False using b assms by linarith
  qed
qed

lemma float_round_pos_at:
  assumes "pow2 e \<le> x" "x < pow2 (e + 1)" "- 1022 \<le> e"
  shows "float_round_pos x = of_int (round_half_even (x / pow2 (e - 52))) * pow2 (e - 52)"
proof -
  have "0 < x" using assms(1) pow2_pos [of e] by linarith
  then have "ilog2 x = e" using assms by (intro ilog2_unique)
  then show ?thesis using assms(3) by (simp add: float_round_pos_def float_exponent_def Let_def max_def)
qed

lemma floor_rat_numeral:
  "\<lfloor>(numeral a / numeral b :: rat)\<rfloor> = numeral a div numeral b"
  by (metis floor_divide_of_int_eq of_int_numeral)

lemma float_round_at:
  assumes "pow2 e \<le> x" "x < pow2 (e + 1)" "- 1022 \<le> e"
    and "of_int (round_half_even (x / pow2 (e - 52))) * pow2 (e - 52) = y"
    and "0 \<le> y" "y < pow2 1024"
  shows "float_round x = Inr y"
proof -
  have x: "0 < x" using assms(1) pow2_pos [of e] by linarith
  have "float_round_pos x = y" using float_round_pos_at [OF assms(1-3)] assms(4) by simp
  then show ?thesis using x assms(5,6) by (simp add: float_round_def)
qed

lemmas float_eval = pow2_def round_half_even_def Let_def floor_rat_numeral

lemma float_9_7: "float_round (9 / 7) = Inr (5790342378047781 / 4503599627370496)"
  by (rule float_round_at [where e = 0]) (simp_all add: float_eval)

lemma float_18_7: "float_round (18 / 7) = Inr (5790342378047781 / 2251799813685248)"
  by (rule float_round_at [where e = 1]) (simp_all add: float_eval)

lemma float_50_97: "float_round (50 / 97) = Inr (290180388361501 / 562949953421312)"
  by (rule float_round_at [where e = "- 1"]) (simp_all add: float_eval)

lemma float_1: "float_round 1 = Inr 1"
  by (rule float_round_at [where e = 0]) (simp_all add: float_eval)

lemma float_679: "float_round 679 = Inr 679"
  by (rule float_round_at [where e = 9]) (simp_all add: float_eval)

lemma float_900: "float_round 900 = Inr 900"
  by (rule float_round_at [where e = 9]) (simp_all add: float_eval)

lemma float_product_679:
  "float_round (197032483697459179 / 562949953421312) = Inr (6157265115545599 / 17592186044416)"
  by (rule float_round_at [where e = 8]) (simp_all add: float_eval)

lemma scaled_size_900_350: "scaled_size 900 350 450 350 = Inr (900, 350)"
  by (simp add: scaled_size_def py_truediv_def py_int_times_float_def py_int_of_float_def
      float_9_7 float_18_7 float_1 float_900)

lemma scaled_size_873_679: "scaled_size 873 679 450 350 = Inr (450, 349)"
  by (simp add: scaled_size_def py_truediv_def py_int_times_float_def py_int_of_float_def
      float_9_7 float_50_97 float_679 float_product_679 floor_rat_numeral)

subsection \<open>The error of one rounding\<close>

lemma round_half_even_error: "\<bar>of_int (round_half_even z) - z\<bar> \<le> 1 / 2"
proof -
  have a: "of_int \<lfloor>z\<rfloor> \<le> z" by simp
  have b: "z < of_int \<lfloor>z\<rfloor> + 1" by linarith
  show ?thesis using a b by (auto simp: round_half_even_def Let_def abs_le_iff)
qed

lemma float_round_normal:
  assumes "pow2 (- 1022) \<le> x" "x < pow2 1023"
  shows "\<exists>y. float_round x = Inr y \<and> \<bar>y - x\<bar> \<le> x / 2 ^ 53"
proof -
  have x0: "0 < x" using assms(1) pow2_pos [of "- 1022"] by linarith
  define e where "e = ilog2 x"
  have lo: "pow2 e \<le> x" and hi: "x < pow2 (e + 1)"
    using ilog2_bounds [OF x0] by (simp_all add: e_def)
  have e_lo: "- 1022 \<le> e"
  proof (rule ccontr)
    assume "\<not> - 1022 \<le> e"
    then have "pow2 (e + 1) \<le> pow2 (- 1022)" by (intro pow2_mono) simp
    then show False using hi assms(1) by linarith
  qed
  have e_hi: "e < 1023"
  proof (rule ccontr)
    assume "\<not> e < 1023"
    then have "pow2 1023 \<le> pow2 e" by (intro pow2_mono) simp
    then show False using lo assms(2) by linarith
  qed
  define u where "u = pow2 (e - 52)"
  define k where "k = round_half_even (x / u)"
  define y where "y = of_int k * u"
  have u0: "0 < u" by (simp add: u_def pow2_pos)
  have fr: "float_round_pos x = y"
    using float_round_pos_at [OF lo hi e_lo] by (simp add: y_def k_def u_def)
  have "y - x = (of_int k - x / u) * u" using u0 by (simp add: y_def field_simps)
  then have "\<bar>y - x\<bar> = \<bar>of_int k - x / u\<bar> * u" using u0 by (simp add: abs_mult)
  also have "\<dots> \<le> (1 / 2) * u"
    using round_half_even_error [of "x / u"] u0 by (simp add: k_def)
  also have "\<dots> = pow2 e / 2 ^ 53"
  proof -
    have "u = pow2 e * pow2 (- 52)" using pow2_add [of e "- 52"] by (simp add: u_def)
    then show ?thesis by (simp add: pow2_def)
  qed
  also have "\<dots> \<le> x / 2 ^ 53" using lo by (simp add: divide_right_mono)
  finally have err: "\<bar>y - x\<bar> \<le> x / 2 ^ 53" .
  define d where "d = x / 2 ^ 53"
  have dx: "x = 9007199254740992 * d" by (simp add: d_def)
  have d0: "0 < d" using x0 by (simp add: d_def)
  have errd: "\<bar>y - x\<bar> \<le> d" using err by (simp only: d_def)
  have y0: "0 < y" and y2: "y < 2 * x" using errd dx d0 by linarith+
  have "pow2 1024 = 2 * pow2 1023" using pow2_add [of 1 1023] by (simp add: pow2_def)
  then have "y < pow2 1024" using y2 assms(2) by linarith
  then have "float_round x = Inr y" using x0 y0 fr by (simp add: float_round_def)
  then show ?thesis using err by blast
qed

lemma float_round_mid:
  assumes "1 / 2 ^ 60 \<le> x" "x \<le> 2 ^ 60"
  shows "\<exists>y. float_round x = Inr y \<and> x * (1 - 1 / 2 ^ 53) \<le> y \<and> y \<le> x * (1 + 1 / 2 ^ 53)"
proof -
  have "pow2 (- 1022) \<le> pow2 (- 60)" by (intro pow2_mono) simp
  moreover have "pow2 (- 60) = 1 / 2 ^ 60" by (simp add: pow2_def)
  ultimately have a: "pow2 (- 1022) \<le> x" using assms(1) by linarith
  have "pow2 60 < pow2 1023" by (intro pow2_strict_mono) simp
  moreover have "pow2 60 = 2 ^ 60" by (simp add: pow2_def)
  ultimately have b: "x < pow2 1023" using assms(2) by linarith
  from float_round_normal [OF a b] obtain y where
    y: "float_round x = Inr y" and err: "\<bar>y - x\<bar> \<le> x / 2 ^ 53" by blast
  define d where "d = x / 2 ^ 53"
  have errd: "\<bar>y - x\<bar> \<le> d" using err by (simp only: d_def)
  have eq: "x * (1 - 1 / 2 ^ 53) = x - d" "x * (1 + 1 / 2 ^ 53) = x + d"
    by (simp_all add: d_def algebra_simps)
  have "x - d \<le> y" "y \<le> x + d" using errd by linarith+
  then have "x * (1 - 1 / 2 ^ 53) \<le> y" "y \<le> x * (1 + 1 / 2 ^ 53)"
    by (simp_all only: eq)
  then show ?thesis using y by blast
qed

lemma py_truediv_bounds:
  assumes "0 < a" "a \<le> 2147483648" "0 < b" "b \<le> 2147483648"
  shows "\<exists>r. py_truediv a b = Inr r
    \<and> (of_int a / of_int b) * (1 - 1 / 2 ^ 53) \<le> r
    \<and> r \<le> (of_int a / of_int b) * (1 + 1 / 2 ^ 53)"
proof -
  let ?x = "of_int a / of_int b :: rat"
  have a: "(1::rat) \<le> of_int a" "(of_int a :: rat) \<le> 2147483648"
    and b: "(1::rat) \<le> of_int b" "(of_int b :: rat) \<le> 2147483648"
    using assms by linarith+
  have l1: "1 / 2147483648 \<le> ?x"
    using a b by (simp add: pos_le_divide_eq)
  have l0: "(1::rat) / 2 ^ 60 \<le> 1 / 2147483648" by simp
  have lo: "1 / 2 ^ 60 \<le> ?x" by (rule order_trans [OF l0 l1])
  have h1: "?x \<le> 2147483648"
    using a b by (simp add: pos_divide_le_eq)
  have h0: "(2147483648::rat) \<le> 2 ^ 60" by simp
  have hi: "?x \<le> 2 ^ 60" by (rule order_trans [OF h1 h0])
  show ?thesis
    using float_round_mid [OF lo hi] assms(3) by (simp add: py_truediv_def)
qed

lemma rounded_ratio_less:
  assumes "0 < a" "a \<le> 2147483648" "0 < b" "b \<le> 2147483648"
    and "0 < c" "c \<le> 2147483648" "0 < d" "d \<le> 2147483648"
    and less: "c * b < a * d" and small: "a * d \<le> 140737488355328"
    and r: "py_truediv a b = Inr r" and t: "py_truediv c d = Inr t"
  shows "t < r"
proof -
  define H :: rat where "H = of_int b * of_int d"
  define A :: rat where "A = of_int (a * d)"
  define C :: rat where "C = of_int (c * b)"
  define dA where "dA = A / 2 ^ 53"
  define dC where "dC = C / 2 ^ 53"
  have H0: "0 < H" using assms(3,7) by (simp add: H_def)
  have rb: "(of_int a / of_int b) * (1 - 1 / 2 ^ 53) \<le> r"
    using py_truediv_bounds [OF assms(1-4)] r by auto
  have tb: "t \<le> (of_int c / of_int d) * (1 + 1 / 2 ^ 53)"
    using py_truediv_bounds [OF assms(5-8)] t by auto
  have "A - dA = ((of_int a / of_int b) * (1 - 1 / 2 ^ 53)) * H"
    using assms(3,7) by (simp add: A_def dA_def H_def field_simps)
  also have "\<dots> \<le> r * H" using rb H0 by (rule mult_right_mono [OF _ less_imp_le])
  finally have lo: "A - dA \<le> r * H" .
  have "t * H \<le> ((of_int c / of_int d) * (1 + 1 / 2 ^ 53)) * H"
    using tb H0 by (rule mult_right_mono [OF _ less_imp_le])
  also have "\<dots> = C + dC"
    using assms(3,7) by (simp add: C_def dC_def H_def field_simps)
  finally have hi: "t * H \<le> C + dC" .
  have "c * b + 1 \<le> a * d" using less by simp
  then have "(of_int (c * b + 1) :: rat) \<le> of_int (a * d)" by (simp only: of_int_le_iff)
  then have gap: "C + 1 \<le> A" by (simp add: A_def C_def)
  have "(of_int (a * d) :: rat) \<le> of_int 140737488355328"
    using small by (simp only: of_int_le_iff)
  then have Ab: "A \<le> 140737488355328" by (simp add: A_def)
  have "0 \<le> c * b" using assms(3,5) by simp
  then have "(of_int 0 :: rat) \<le> of_int (c * b)" by (simp only: of_int_le_iff)
  then have C0: "0 \<le> C" by (simp add: C_def)
  have Ad: "A = 9007199254740992 * dA" and Cd: "C = 9007199254740992 * dC"
    by (simp_all add: dA_def dC_def)
  have "C + dC < A - dA" using gap Ab C0 Ad Cd by linarith
  then have "t * H < r * H" using lo hi by linarith
  then show ?thesis using H0 by (simp add: mult_less_cancel_right_pos)
qed

lemma ratio_compare:
  assumes "0 < w" "w \<le> 2147483648" "0 < h" "h \<le> 2147483648"
    and "0 < tw" "tw \<le> 65536" "0 < th" "th \<le> 65536"
  shows "\<exists>r t. py_truediv w h = Inr r \<and> py_truediv tw th = Inr t
    \<and> (t < r \<longleftrightarrow> tw * h < w * th)"
proof -
  have tb: "tw \<le> 2147483648" "th \<le> 2147483648" using assms(6,8) by simp_all
  have p1: "w * th \<le> 140737488355328"
  proof -
    have "w * th \<le> 2147483648 * 65536" using assms(1,2,7,8) by (intro mult_mono) simp_all
    then show ?thesis by simp
  qed
  have p2: "tw * h \<le> 140737488355328"
  proof -
    have "tw * h \<le> 65536 * 2147483648" using assms(3-6) by (intro mult_mono) simp_all
    then show ?thesis by simp
  qed
  obtain r where r: "py_truediv w h = Inr r" using py_truediv_bounds [OF assms(1-4)] by blast
  obtain t where t: "py_truediv tw th = Inr t"
    using py_truediv_bounds [OF assms(5) tb(1) assms(7) tb(2)] by blast
  consider "tw * h < w * th" | "tw * h = w * th" | "w * th < tw * h" by linarith
  then have "t < r \<longleftrightarrow> tw * h < w * th"
  proof cases
    case 1
    then show ?thesis
      using rounded_ratio_less [OF assms(1-5) tb(1) assms(7) tb(2) 1 p1 r t] by simp
  next
    case 2
    then have "(of_int (tw * h) :: rat) = of_int (w * th)" by simp
    then have "(of_int w :: rat) / of_int h = of_int tw / of_int th"
      using assms(3,7) by (simp add: frac_eq_eq mult.commute)
    then have "r = t" using r t assms(3,7) by (simp add: py_truediv_def)
    then show ?thesis using 2 by simp
  next
    case 3
    then have "r < t"
      using rounded_ratio_less [OF assms(5) tb(1) assms(7) tb(2) assms(1-4) _ p2 t r] by simp
    then show ?thesis using 3 by simp
  qed
  then show ?thesis using r t by blast
qed

lemma floor_near_quotient:
  fixes p :: rat
  assumes "0 < h" and "\<bar>p - of_int A / of_int h\<bar> < 1 / of_int h"
  shows "\<lfloor>p\<rfloor> = A div h \<or> (h dvd A \<and> \<lfloor>p\<rfloor> = A div h - 1)"
proof -
  define q where "q = A div h"
  define m where "m = A mod h"
  define P where "P = p * of_int h"
  have h0: "(0::rat) < of_int h" using assms(1) by simp
  have A: "A = q * h + m" by (simp add: q_def m_def)
  have m: "0 \<le> m" "m < h" using assms(1) by (simp_all add: m_def)
  have "\<bar>p - of_int A / of_int h\<bar> * of_int h < (1 / of_int h) * of_int h"
    using assms(2) h0 by (rule mult_strict_right_mono)
  moreover have "\<bar>p - of_int A / of_int h\<bar> * of_int h = \<bar>P - of_int A\<bar>"
  proof -
    have "\<bar>p - of_int A / of_int h\<bar> * of_int h = \<bar>(p - of_int A / of_int h) * of_int h\<bar>"
      using h0 by (simp add: abs_mult)
    also have "(p - of_int A / of_int h) * of_int h = P - of_int A"
      using h0 by (simp add: P_def field_simps)
    finally show ?thesis .
  qed
  ultimately have near: "\<bar>P - of_int A\<bar> < 1" using h0 by simp
  have le_iff: "of_int k \<le> p \<longleftrightarrow> of_int (k * h) \<le> P" for k
    using h0 by (simp add: P_def)
  have less_iff: "p < of_int k \<longleftrightarrow> P < of_int (k * h)" for k
    using h0 by (simp add: P_def)
  have Aq: "(of_int A :: rat) = of_int (q * h) + of_int m" by (simp add: A)
  have mr: "(0::rat) \<le> of_int m" "(of_int m :: rat) + 1 \<le> of_int h"
    using m by linarith+
  have hq: "(of_int ((q + 1) * h) :: rat) = of_int (q * h) + of_int h"
    "(of_int ((q - 1) * h) :: rat) = of_int (q * h) - of_int h"
    by (simp_all add: algebra_simps)
  have h1: "(1::rat) \<le> of_int h" using assms(1) by linarith
  have upper: "p < of_int (q + 1)"
    unfolding less_iff hq using near Aq mr by linarith
  show ?thesis
  proof (cases "m = 0")
    case False
    then have "(1::rat) \<le> of_int m" using m by linarith
    then have "of_int q \<le> p" unfolding le_iff using near Aq by linarith
    then have "\<lfloor>p\<rfloor> = q" using upper by (simp add: floor_eq_iff)
    then show ?thesis by (simp add: q_def)
  next
    case True
    then have dv: "h dvd A" by (simp add: m_def dvd_eq_mod_eq_0)
    have lower: "of_int (q - 1) \<le> p"
      unfolding le_iff hq using near Aq True h1 by simp
    show ?thesis
    proof (cases "of_int q \<le> p")
      case True
      then have "\<lfloor>p\<rfloor> = q" using upper by (simp add: floor_eq_iff)
      then show ?thesis by (simp add: q_def)
    next
      case False
      then have "\<lfloor>p\<rfloor> = q - 1" using lower by (simp add: floor_eq_iff)
      then show ?thesis using dv by (simp add: q_def)
    qed
  qed
qed

lemma cube_bounds:
  "(1 + 1 / 2 ^ 53) * (1 + 1 / 2 ^ 53) * (1 + 1 / 2 ^ 53) \<le> (1 + 1 / 2 ^ 51 :: rat)"
  "(1 - 1 / 2 ^ 51 :: rat) \<le> (1 - 1 / 2 ^ 53) * (1 - 1 / 2 ^ 53) * (1 - 1 / 2 ^ 53)"
  by simp_all

lemma scaled_product:
  assumes "0 < n" "n \<le> 2147483648" "0 < c" "c \<le> 65536" "0 < d" "d \<le> 2147483648"
  shows "\<exists>s p. py_truediv c d = Inr s \<and> py_int_times_float n s = Inr p
    \<and> (of_int (n * c) / of_int d) * (1 - 1 / 2 ^ 51) \<le> p
    \<and> p \<le> (of_int (n * c) / of_int d) * (1 + 1 / 2 ^ 51)"
proof -
  define up :: rat where "up = 1 + 1 / 2 ^ 53"
  define dn :: rat where "dn = 1 - 1 / 2 ^ 53"
  define t :: rat where "t = of_int c / of_int d"
  define N :: rat where "N = of_int n"
  have up: "1 \<le> up" "up \<le> 2" and dn: "1 / 2 \<le> dn" "dn \<le> 1"
    by (simp_all add: up_def dn_def)
  have up0: "0 \<le> up" and dn0: "0 \<le> dn" using up dn by linarith+
  have N: "1 \<le> N" "N \<le> 2147483648" using assms(1,2) by (simp_all add: N_def)
  have N0: "0 \<le> N" using N by linarith
  have cr: "(1::rat) \<le> of_int c" "(of_int c :: rat) \<le> 65536"
    and dr: "(1::rat) \<le> of_int d" "(of_int d :: rat) \<le> 2147483648"
    using assms by linarith+
  have cb: "c \<le> 2147483648" using assms(4) by simp
  have t: "1 / 2147483648 \<le> t" "t \<le> 65536"
    using cr dr by (simp_all add: t_def pos_le_divide_eq pos_divide_le_eq)
  obtain s where s: "py_truediv c d = Inr s" and sb: "t * dn \<le> s" "s \<le> t * up"
    using py_truediv_bounds [OF assms(3) cb assms(5,6)] by (auto simp: t_def dn_def up_def)
  have Nlo: "(1::rat) / 2 ^ 60 \<le> N" and Nhi: "N \<le> 2 ^ 60" using N by simp_all
  obtain nf where nf: "float_round N = Inr nf" and nb: "N * dn \<le> nf" "nf \<le> N * up"
    using float_round_mid [OF Nlo Nhi] by (auto simp: dn_def up_def)
  have t0: "0 < t" using t by linarith
  have s_lo: "1 / 4294967296 \<le> s"
  proof -
    have "(1 / 2147483648) * (1 / 2) \<le> t * dn" using t(1) dn(1) by (intro mult_mono) simp_all
    then show ?thesis using sb(1) by simp
  qed
  have s_hi: "s \<le> 131072"
  proof -
    have "t * up \<le> 65536 * 2" using t(2) up(2) t0 up0 by (intro mult_mono) simp_all
    then show ?thesis using sb(2) by simp
  qed
  have nf_lo: "1 / 2 \<le> nf"
  proof -
    have "1 * (1 / 2) \<le> N * dn" using N(1) dn(1) by (intro mult_mono) simp_all
    then show ?thesis using nb(1) by simp
  qed
  have nf_hi: "nf \<le> 4294967296"
  proof -
    have "N * up \<le> 2147483648 * 2" using N up(2) up0 N0 by (intro mult_mono) simp_all
    then show ?thesis using nb(2) by simp
  qed
  have s0: "0 \<le> s" and nf0: "0 \<le> nf" using s_lo nf_lo by linarith+
  have x_lo: "1 / 2 ^ 60 \<le> nf * s"
  proof -
    have "(1 / 2) * (1 / 4294967296) \<le> nf * s" using nf_lo s_lo by (intro mult_mono) simp_all
    then show ?thesis by simp
  qed
  have x_hi: "nf * s \<le> 2 ^ 60"
  proof -
    have "nf * s \<le> 4294967296 * 131072" using nf_hi s_hi nf0 s0 by (intro mult_mono) simp_all
    then show ?thesis by simp
  qed
  obtain p where p: "float_round (nf * s) = Inr p"
    and pb: "(nf * s) * dn \<le> p" "p \<le> (nf * s) * up"
    using float_round_mid [OF x_lo x_hi] by (auto simp: dn_def up_def)
  have run: "py_int_times_float n s = Inr p" using nf p by (simp add: py_int_times_float_def N_def)
  have X: "of_int (n * c) / of_int d = N * t" by (simp add: N_def t_def)
  have X0: "0 \<le> N * t" using N t0 by simp
  have "p \<le> (nf * s) * up" by (rule pb)
  also have "\<dots> \<le> ((N * up) * (t * up)) * up"
    using nb(2) sb(2) nf0 s0 up0 N0 t0 by (intro mult_mono mult_nonneg_nonneg) simp_all
  also have "\<dots> = (N * t) * (up * up * up)" by (simp add: algebra_simps)
  also have "\<dots> \<le> (N * t) * (1 + 1 / 2 ^ 51)"
    using X0 cube_bounds(1) unfolding up_def by (rule mult_left_mono [OF _ _, rotated])
  finally have hi: "p \<le> (N * t) * (1 + 1 / 2 ^ 51)" .
  have "(N * t) * (1 - 1 / 2 ^ 51) \<le> (N * t) * (dn * dn * dn)"
    using X0 cube_bounds(2) unfolding dn_def by (rule mult_left_mono [OF _ _, rotated])
  also have "\<dots> = ((N * dn) * (t * dn)) * dn" by (simp add: algebra_simps)
  also have "\<dots> \<le> (nf * s) * dn"
    using nb(1) sb(1) dn0 N0 t0 nf0 s0 by (intro mult_mono mult_nonneg_nonneg) simp_all
  also have "\<dots> \<le> p" by (rule pb)
  finally have lo: "(N * t) * (1 - 1 / 2 ^ 51) \<le> p" .
  show ?thesis using s run lo hi unfolding X by blast
qed

lemma scaled_dimension:
  assumes "0 < n" "n \<le> 2147483648" "0 < c" "c \<le> 65536" "0 < d" "d \<le> 2147483648"
  shows "\<exists>s p. py_truediv c d = Inr s \<and> py_int_times_float n s = Inr p
    \<and> (py_int_of_float p = (n * c) div d
        \<or> (d dvd n * c \<and> py_int_of_float p = (n * c) div d - 1))"
proof -
  define X :: rat where "X = of_int (n * c) / of_int d"
  define e :: rat where "e = X / 2 ^ 51"
  obtain s p where s: "py_truediv c d = Inr s" and p: "py_int_times_float n s = Inr p"
    and lo: "X * (1 - 1 / 2 ^ 51) \<le> p" and hi: "p \<le> X * (1 + 1 / 2 ^ 51)"
    using scaled_product [OF assms] unfolding X_def by blast
  have d0: "(0::rat) < of_int d" using assms(5) by simp
  have "0 \<le> n * c" using assms(1,3) by simp
  then have "(of_int 0 :: rat) \<le> of_int (n * c)" by (simp only: of_int_le_iff)
  then have nc0: "(0::rat) \<le> of_int (n * c)" by simp
  have "n * c \<le> 2147483648 * 65536" using assms(1-4) by (intro mult_mono) simp_all
  then have "(of_int (n * c) :: rat) \<le> of_int (2147483648 * 65536)" by (simp only: of_int_le_iff)
  then have nc: "(of_int (n * c) :: rat) \<le> 140737488355328" by simp
  have X0: "0 \<le> X" using nc0 d0 by (simp add: X_def)
  have eq: "X * (1 - 1 / 2 ^ 51) = X - e" "X * (1 + 1 / 2 ^ 51) = X + e"
    by (simp_all add: e_def algebra_simps)
  have Xe: "X = 2251799813685248 * e" by (simp add: e_def)
  have e0: "0 \<le> e" using X0 by (simp add: e_def)
  have lo': "X - e \<le> p" and hi': "p \<le> X + e" using lo hi by (simp_all only: eq)
  have p0: "0 \<le> p" using lo' Xe e0 by linarith
  have "e * of_int d = of_int (n * c) / 2 ^ 51" using d0 by (simp add: e_def X_def)
  also have "\<dots> \<le> 140737488355328 / 2 ^ 51" by (rule divide_right_mono [OF nc]) simp
  also have "\<dots> < 1" by simp
  finally have "e < 1 / of_int d" using d0 by (simp add: pos_less_divide_eq)
  moreover have "\<bar>p - X\<bar> \<le> e" using lo' hi' by linarith
  ultimately have "\<bar>p - of_int (n * c) / of_int d\<bar> < 1 / of_int d"
    unfolding X_def by linarith
  from floor_near_quotient [OF assms(5) this]
  have "\<lfloor>p\<rfloor> = (n * c) div d \<or> (d dvd n * c \<and> \<lfloor>p\<rfloor> = (n * c) div d - 1)" .
  then show ?thesis using s p p0 by (auto simp: py_int_of_float_def)
qed

section \<open>The cover-fit rule\<close>

lemma scaled_size_cases:
  assumes "0 < w" "w \<le> 2147483648" "0 < h" "h \<le> 2147483648"
    and "0 < tw" "tw \<le> 65536" "0 < th" "th \<le> 65536"
  shows "\<exists>nw nh. scaled_size w h tw th = Inr (nw, nh)
      \<and> (tw * h < w * th \<longrightarrow>
           nh = th \<and> (nw = (w * th) div h \<or> (h dvd w * th \<and> nw = (w * th) div h - 1)))
      \<and> (\<not> tw * h < w * th \<longrightarrow>
           nw = tw \<and> (nh = (h * tw) div w \<or> (w dvd h * tw \<and> nh = (h * tw) div w - 1)))"
proof -
  obtain r t where r: "py_truediv w h = Inr r" and t: "py_truediv tw th = Inr t"
    and cmp: "t < r \<longleftrightarrow> tw * h < w * th"
    using ratio_compare [OF assms] by blast
  show ?thesis
  proof (cases "tw * h < w * th")
    case True
    obtain s p where s: "py_truediv th h = Inr s" and p: "py_int_times_float w s = Inr p"
      and v: "py_int_of_float p = (w * th) div h
        \<or> (h dvd w * th \<and> py_int_of_float p = (w * th) div h - 1)"
      using scaled_dimension [OF assms(1,2,7,8,3,4)] by blast
    have "scaled_size w h tw th = Inr (py_int_of_float p, th)"
      using r t cmp True s p by (simp add: scaled_size_def)
    then show ?thesis using True v by simp
  next
    case False
    obtain s p where s: "py_truediv tw w = Inr s" and p: "py_int_times_float h s = Inr p"
      and v: "py_int_of_float p = (h * tw) div w
        \<or> (w dvd h * tw \<and> py_int_of_float p = (h * tw) div w - 1)"
      using scaled_dimension [OF assms(3,4,5,6,1,2)] by blast
    have "scaled_size w h tw th = Inr (tw, py_int_of_float p)"
      using r t cmp False s p by (simp add: scaled_size_def)
    then show ?thesis using False v by simp
  qed
qed

text \<open>
  How far the scaled size can fall short of the target: the width never does, the
  height by one pixel at most, and only for an image that has exactly the ratio of
  the target.
\<close>

lemma scaled_size_shortfall:
  assumes "0 < w" "w \<le> 2147483648" "0 < h" "h \<le> 2147483648"
    and "0 < tw" "tw \<le> 65536" "0 < th" "th \<le> 65536"
  shows "\<exists>nw nh. scaled_size w h tw th = Inr (nw, nh) \<and> tw \<le> nw \<and> th - 1 \<le> nh
    \<and> (nh < th \<longrightarrow> w * th = tw * h)"
proof -
  from scaled_size_cases [OF assms] obtain nw nh where
    run: "scaled_size w h tw th = Inr (nw, nh)" and
    wide: "tw * h < w * th \<Longrightarrow>
           nh = th \<and> (nw = (w * th) div h \<or> (h dvd w * th \<and> nw = (w * th) div h - 1))" and
    tall: "\<not> tw * h < w * th \<Longrightarrow>
           nw = tw \<and> (nh = (h * tw) div w \<or> (w dvd h * tw \<and> nh = (h * tw) div w - 1))"
    by blast
  have "tw \<le> nw \<and> th - 1 \<le> nh \<and> (nh < th \<longrightarrow> w * th = tw * h)"
  proof (cases "tw * h < w * th")
    case True
    have q: "tw \<le> (w * th) div h"
    proof -
      have "(tw * h) div h \<le> (w * th) div h" using True assms(3) by (intro zdiv_mono1) simp_all
      then show ?thesis using assms(3) by simp
    qed
    have "tw \<le> (w * th) div h - 1" if "h dvd w * th"
    proof -
      from that have "w * th = ((w * th) div h) * h" by simp
      then have "tw * h < ((w * th) div h) * h" using True by simp
      then have "tw < (w * th) div h" using assms(3) by (simp add: mult_less_cancel_right)
      then show ?thesis by simp
    qed
    then show ?thesis using wide [OF True] q by auto
  next
    case False
    then have le: "th * w \<le> h * tw" by (simp add: mult.commute)
    have q: "th \<le> (h * tw) div w"
    proof -
      have "(th * w) div w \<le> (h * tw) div w" using le assms(1) by (intro zdiv_mono1) simp_all
      then show ?thesis using assms(1) by simp
    qed
    have eq: "w * th = tw * h" if "w dvd h * tw" "(h * tw) div w - 1 < th"
    proof -
      from that(2) q have "(h * tw) div w = th" by simp
      moreover from that(1) have "h * tw = ((h * tw) div w) * w" by simp
      ultimately have "h * tw = th * w" by simp
      then show ?thesis by (simp add: mult.commute)
    qed
    from tall [OF False] have nw: "nw = tw"
      and nh: "nh = (h * tw) div w \<or> (w dvd h * tw \<and> nh = (h * tw) div w - 1)" by simp_all
    from nh show ?thesis
    proof
      assume "nh = (h * tw) div w"
      then show ?thesis using nw q by simp
    next
      assume a: "w dvd h * tw \<and> nh = (h * tw) div w - 1"
      then have "th - 1 \<le> nh" using q by simp
      moreover have "nh < th \<longrightarrow> w * th = tw * h" using a eq by simp
      ultimately show ?thesis using nw by simp
    qed
  qed
  then show ?thesis using run by blast
qed

text \<open>
  Claim C2. For an image with sides from 1 to \<open>2 ^ 31\<close> pixels and a target with
  sides from 1 to \<open>2 ^ 16\<close> pixels the resize arithmetic never fails and follows the
  cover-fit rule. The comparison of the two rounded ratios
  decides as the exact ratios do. When the image is relatively wider
  (\<open>width / height > target_w / target_h\<close>) the new height is the target height and
  the new width is the proportional width \<open>width * target_h / height\<close> rounded down;
  otherwise the new width is the target width and the new height is
  \<open>height * target_w / width\<close> rounded down. (Where that quotient is a whole number
  the float arithmetic may give one less.) The crop box is
  \<open>[left, top, left + target_w, top + target_h]\<close> with
  \<open>left = (new_w - target_w) div 2\<close> and \<open>top = (new_h - target_h) div 2\<close>. A source of
  900 by 350 with the target 450 by 350 is resized to 900 by 350 and cropped from
  \<open>left = 225\<close>.
\<close>

theorem cover_fit:
  assumes "0 < w" "w \<le> 2147483648" "0 < h" "h \<le> 2147483648"
    and "0 < tw" "tw \<le> 65536" "0 < th" "th \<le> 65536"
  shows "(\<exists>nw nh. scaled_size w h tw th = Inr (nw, nh)
      \<and> (tw * h < w * th \<longrightarrow>
           nh = th \<and> (nw = (w * th) div h \<or> (h dvd w * th \<and> nw = (w * th) div h - 1)))
      \<and> (\<not> tw * h < w * th \<longrightarrow>
           nw = tw \<and> (nh = (h * tw) div w \<or> (w dvd h * tw \<and> nh = (h * tw) div w - 1)))
      \<and> crop_box (nw, nh) tw th =
           ((nw - tw) div 2, (nh - th) div 2, (nw - tw) div 2 + tw, (nh - th) div 2 + th))
    \<and> scaled_size 900 350 450 350 = Inr (900, 350)
    \<and> crop_box (900, 350) 450 350 = (225, 0, 675, 350)"
proof -
  have box: "crop_box (nw, nh) tw th =
           ((nw - tw) div 2, (nh - th) div 2, (nw - tw) div 2 + tw, (nh - th) div 2 + th)"
    for nw nh by (simp add: crop_box_def Let_def)
  show ?thesis
    using scaled_size_cases [OF assms] box scaled_size_900_350 by (simp add: crop_box_def)
qed

theorem cover_fit_witness:
  "(0::int) < 900 \<and> (900::int) \<le> 2147483648 \<and> (0::int) < 350 \<and> (350::int) \<le> 2147483648
   \<and> (0::int) < 450 \<and> (450::int) \<le> 65536 \<and> (350::int) \<le> 65536
   \<and> (\<exists>nw nh. scaled_size 900 350 450 350 = Inr (nw, nh) \<and> nh = 350 \<and> (nw = 900 \<or> nw = 899)
        \<and> crop_box (nw, nh) 450 350 =
             ((nw - 450) div 2, (nh - 350) div 2, (nw - 450) div 2 + 450, (nh - 350) div 2 + 350))
   \<and> scaled_size 900 350 450 350 = Inr (900, 350)
   \<and> crop_box (900, 350) 450 350 = (225, 0, 675, 350)"
  using cover_fit [of 900 350 450 350] by simp

section \<open>Schema creation is idempotent\<close>

lemma executescript_creates:
  "list_all if_not_exists sts \<Longrightarrow>
   \<exists>db'. executescript sts db = Inr db'
     \<and> (\<forall>n. db n \<noteq> None \<longrightarrow> db' n = db n)
     \<and> (\<forall>st \<in> set sts. db' (table_name st) \<noteq> None)"
proof (induction sts arbitrary: db)
  case Nil
  then show ?case by simp
next
  case (Cons st sts)
  obtain b n c where st: "st = CREATE_TABLE b n c" by (cases st)
  with Cons.prems have b: b and rest: "list_all if_not_exists sts" by simp_all
  define db1 where "db1 = (if db n \<noteq> None then db else db(n \<mapsto> c))"
  have ex: "execute st db = Inr db1" using b by (simp add: st db1_def)
  have keep1: "\<forall>m. db m \<noteq> None \<longrightarrow> db1 m = db m" by (auto simp: db1_def)
  have has1: "db1 n \<noteq> None" by (auto simp: db1_def)
  from Cons.IH [OF rest, of db1] obtain db' where
    run: "executescript sts db1 = Inr db'" and
    keep: "\<forall>m. db1 m \<noteq> None \<longrightarrow> db' m = db1 m" and
    has: "\<forall>st \<in> set sts. db' (table_name st) \<noteq> None" by blast
  have "executescript (st # sts) db = Inr db'" using ex run by simp
  moreover have "\<forall>m. db m \<noteq> None \<longrightarrow> db' m = db m" using keep keep1 by metis
  moreover have "db' (table_name st) \<noteq> None" using keep has1 by (simp add: st)
  ultimately show ?case using has by auto
qed

lemma executescript_noop:
  "list_all if_not_exists sts \<Longrightarrow> \<forall>st \<in> set sts. db (table_name st) \<noteq> None \<Longrightarrow>
   executescript sts db = Inr db"
proof (induction sts)
  case Nil
  then show ?case by simp
next
  case (Cons st sts)
  then show ?case by (cases st) auto
qed

lemma init_script_if_not_exists: "list_all if_not_exists init_script"
  by (simp add: init_script_def)

lemma init_db_twice: "\<exists>db'. init_db db = Inr db' \<and> init_db db' = Inr db'"
proof -
  from executescript_creates [OF init_script_if_not_exists, of db] obtain db' where
    run: "executescript init_script db = Inr db'" and
    has: "\<forall>st \<in> set init_script. db' (table_name st) \<noteq> None" by blast
  have "executescript init_script db' = Inr db'"
    using init_script_if_not_exists has by (rule executescript_noop)
  then show ?thesis using run by (auto simp: init_db_def)
qed

lemma run_init_Suc: "run_init (Suc n) db = init_db db"
proof (induction n)
  case 0
  obtain db' where "init_db db = Inr db'" using init_db_twice [of db] by blast
  then show ?case by simp
next
  case (Suc n)
  obtain db' where a: "init_db db = Inr db'" and b: "init_db db' = Inr db'"
    using init_db_twice [of db] by blast
  have "run_init (Suc (Suc n)) db = run_init (Suc n) db'" using a by simp
  also have "\<dots> = (case init_db db' of Inl x \<Rightarrow> Inl x | Inr d \<Rightarrow> run_init n d)" by simp
  also have "\<dots> = run_init n db'" using b by simp
  finally have step: "run_init (Suc (Suc n)) db = run_init n db'" .
  have "run_init (Suc n) db = run_init n db'" using a by simp
  then show ?case using step Suc a b by (cases n) auto
qed

lemma init_db_fresh:
  "init_db Map.empty =
     Inr [''projects'' \<mapsto> projects_columns, ''clients'' \<mapsto> clients_columns,
          ''contacts'' \<mapsto> contacts_columns, ''subscriptions'' \<mapsto> subscriptions_columns]"
  by (simp add: init_db_def init_script_def)

text \<open>
  Claim C9. Running the schema creation never fails, and running it again, any
  number of times, leaves the schema of the first run: on any store the first run
  returns a schema on which a further run returns the same schema, and so does any
  positive number of runs in a row. On an empty store the schema is the four tables
  \<^verbatim>\<open>projects\<close>, \<^verbatim>\<open>clients\<close>, \<^verbatim>\<open>contacts\<close> and \<^verbatim>\<open>subscriptions\<close> with their columns.
\<close>

theorem init_db_idempotent:
  "(\<exists>db'. init_db db = Inr db' \<and> init_db db' = Inr db' \<and> run_init (Suc n) db = Inr db')
   \<and> init_db Map.empty =
       Inr [''projects'' \<mapsto> projects_columns, ''clients'' \<mapsto> clients_columns,
            ''contacts'' \<mapsto> contacts_columns, ''subscriptions'' \<mapsto> subscriptions_columns]"
  using init_db_twice [of db] run_init_Suc [of n db] init_db_fresh by auto

section \<open>Stored text is trimmed\<close>

lemma strip_chars_prefix:
  "list_all p pre \<Longrightarrow> strip_chars p (pre @ x) = strip_chars p x"
  by (simp add: strip_chars_def dropWhile_append list_all_iff)

lemma strip_chars_suffix:
  assumes "list_all p post"
  shows "strip_chars p (x @ post) = strip_chars p x"
proof (cases "\<forall>c \<in> set x. p c")
  case True
  then have "dropWhile p (x @ post) = []" "dropWhile p x = []"
    using assms by (simp_all add: list_all_iff)
  then show ?thesis by (simp only: strip_chars_def)
next
  case False
  then have "dropWhile p (x @ post) = dropWhile p x @ post"
    by (auto simp: dropWhile_append)
  moreover have "dropWhile p (rev post @ z) = dropWhile p z" for z
    using assms by (simp add: dropWhile_append list_all_iff)
  ultimately show ?thesis by (simp add: strip_chars_def)
qed

lemma strip_padded:
  "list_all isspace pre \<Longrightarrow> list_all isspace post \<Longrightarrow> strip (pre @ x @ post) = strip x"
  by (simp add: strip_def strip_chars_prefix strip_chars_suffix)

lemma strip_form_get_padded:
  assumes "\<And>k. list_all isspace (pre k)" "\<And>k. list_all isspace (post k)"
  shows "strip (form_get (padded pre post form) k) = strip (form_get form k)"
  using assms by (simp add: padded_def form_get_def strip_padded)

lemma contact_submit_stores:
  assumes "strip (form_get form ''full_name'') \<noteq> []" "strip (form_get form ''email'') \<noteq> []"
    "strip (form_get form ''mobile'') \<noteq> []" "strip (form_get form ''city'') \<noteq> []"
  shows "rows (contacts (snd (contact_submit form now s))) (next_id (contacts s)) =
     Some \<lparr>full_name = strip (form_get form ''full_name''), email = strip (form_get form ''email''),
           mobile = strip (form_get form ''mobile''), city = strip (form_get form ''city''),
           created_at = now\<rparr>"
  using assms by (simp add: contact_submit_def Let_def flash_def insert_row_def)

lemma subscribe_stores:
  assumes "strip (form_get form ''email'') \<noteq> []"
  shows "rows (subscriptions (snd (subscribe form now s))) (next_id (subscriptions s)) =
     Some \<lparr>sub_email = strip (form_get form ''email''), sub_created_at = now\<rparr>"
  using assms by (simp add: subscribe_def Let_def flash_def insert_row_def)

text \<open>
  Claim C10. What a contact submission and a subscription store is the form input
  with the white space at both ends removed: a successful contact submission stores
  the trimmed full name, email, mobile and city, a successful subscription the
  trimmed email. Hence two submissions whose fields differ only in white space at the
  ends do the same: the handler returns the same response and state for a form and
  for the same form with white space put around every value.
\<close>

theorem stored_fields_are_trimmed:
  assumes "\<And>k. list_all isspace (pre k)" and "\<And>k. list_all isspace (post k)"
  shows "contact_submit (padded pre post form) now s = contact_submit form now s
    \<and> subscribe (padded pre post form) now s = subscribe form now s
    \<and> (strip (form_get form ''full_name'') \<noteq> [] \<and> strip (form_get form ''email'') \<noteq> []
        \<and> strip (form_get form ''mobile'') \<noteq> [] \<and> strip (form_get form ''city'') \<noteq> [] \<longrightarrow>
       rows (contacts (snd (contact_submit form now s))) (next_id (contacts s)) =
         Some \<lparr>full_name = strip (form_get form ''full_name''),
               email = strip (form_get form ''email''),
               mobile = strip (form_get form ''mobile''),
               city = strip (form_get form ''city''), created_at = now\<rparr>)
    \<and> (strip (form_get form ''email'') \<noteq> [] \<longrightarrow>
       rows (subscriptions (snd (subscribe form now s))) (next_id (subscriptions s)) =
         Some \<lparr>sub_email = strip (form_get form ''email''), sub_created_at = now\<rparr>)"
proof -
  note eq = strip_form_get_padded [of pre post form, OF assms]
  have "contact_submit (padded pre post form) now s = contact_submit form now s"
    by (simp only: contact_submit_def eq)
  moreover have "subscribe (padded pre post form) now s = subscribe form now s"
    by (simp only: subscribe_def eq)
  ultimately show ?thesis
    using contact_submit_stores [of form now s] subscribe_stores [of form now s] by blast
qed

lemma isspace_space: "isspace (CHR '' '')"
  by (simp add: isspace_def)

lemma strip_jane_form:
  "strip ''Jane Doe'' = ''Jane Doe''" "strip ''jane_form@x.com'' = ''jane_form@x.com''"
  "strip ''555-0100'' = ''555-0100''" "strip ''Austin'' = ''Austin''"
  by (simp_all add: strip_def strip_chars_def isspace_def)

theorem stored_fields_are_trimmed_witness:
  "list_all isspace '' '' \<and>
   contact_submit (padded (\<lambda>k. '' '') (\<lambda>k. '' '') jane_form) ''2024-01-01T00:00:00'' initial_state
     = contact_submit jane_form ''2024-01-01T00:00:00'' initial_state
   \<and> rows (contacts (snd (contact_submit jane_form ''2024-01-01T00:00:00'' initial_state))) 1 =
       Some \<lparr>full_name = ''Jane Doe'', email = ''jane_form@x.com'', mobile = ''555-0100'',
             city = ''Austin'', created_at = ''2024-01-01T00:00:00''\<rparr>
   \<and> rows (subscriptions (snd (subscribe jane_form ''2024-01-01T00:00:00'' initial_state))) 1 =
       Some \<lparr>sub_email = ''jane_form@x.com'', sub_created_at = ''2024-01-01T00:00:00''\<rparr>"
proof -
  have ws: "\<And>k::string. list_all isspace '' ''" by (simp add: isspace_space)
  have g: "form_get jane_form ''full_name'' = ''Jane Doe''" "form_get jane_form ''email'' = ''jane_form@x.com''"
    "form_get jane_form ''mobile'' = ''555-0100''" "form_get jane_form ''city'' = ''Austin''"
    by (simp_all add: form_get_def jane_form_def)
  show ?thesis
    using stored_fields_are_trimmed [of "\<lambda>k. '' ''" "\<lambda>k. '' ''" jane_form "''2024-01-01T00:00:00''" initial_state, OF ws ws]
    by (simp add: g strip_jane_form isspace_space initial_state_def)
qed

section \<open>The image pipeline returns\<close>

lemma crop_box_size:
  "crop_box new_size tw th = (l, t, r, b) \<Longrightarrow> r - l = tw \<and> b - t = th"
  by (auto simp: crop_box_def Let_def)

lemma write_file_cases:
  "write_file w p c fs = (Returns u, fs') \<Longrightarrow> w = Written \<and> fs' = fs(p \<mapsto> c)"
  by (cases w) (auto simp: write_file_def)

lemma process_upload_returns:
  assumes "process_upload e bytes t u tw th fs = (Returns x, fs1)"
  shows "fs1 = fs(t \<mapsto> Raw_upload bytes, u \<mapsto> Jpeg_image 90 tw th)"
proof -
  from assms obtain fsa where a: "write_file (save_outcome e) t (Raw_upload bytes) fs = (Returns (), fsa)"
    by (auto simp: process_upload_def split: prod.splits outcome.splits)
  then have fsa: "fsa = fs(t \<mapsto> Raw_upload bytes)" by (auto dest: write_file_cases)
  from assms a obtain w h where d: "decode e bytes = Some (w, h)"
    by (auto simp: process_upload_def split: prod.splits outcome.splits option.splits)
  from assms a d obtain ns where n: "scaled_size w h tw th = Inr ns"
    by (auto simp: process_upload_def split: prod.splits outcome.splits option.splits sum.splits)
  obtain l tp r b where cb: "crop_box ns tw th = (l, tp, r, b)" by (cases "crop_box ns tw th") auto
  from assms a d n cb have "write_file (encode_outcome e) u (Jpeg_image 90 (r - l) (b - tp)) fsa = (Returns x, fs1)"
    by (auto simp: process_upload_def Let_def split: if_splits)
  then have "fs1 = fsa(u \<mapsto> Jpeg_image 90 (r - l) (b - tp))" by (auto dest: write_file_cases)
  then show ?thesis using crop_box_size [OF cb] fsa by simp
qed

lemma remove_tmp_returns:
  "\<exists>fs'. remove_tmp e t fs = (Returns (), fs')
     \<and> (remove_ok e t \<longrightarrow> fs' = fs(t := None)) \<and> (\<not> remove_ok e t \<longrightarrow> fs' = fs)"
  by (auto simp: remove_tmp_def os_remove_def os_path_exists_def)

lemma save_and_crop_image_allowed:
  assumes "filename f = Some cn" "cn \<noteq> []" "allowed_file (secure_filename cn)"
  shows "save_and_crop_image e (Some f) tw th d =
     (case process_upload e (stream f) (tmp_name_of e (secure_filename cn))
             (unique_name_of e (secure_filename cn)) tw th (files d) of
        (Raises x, fs1) \<Rightarrow>
          (Returns None,
           \<lparr>files = snd (remove_tmp e (tmp_name_of e (secure_filename cn)) fs1),
            log = log d @ [Image_processing_error x]\<rparr>)
      | (Returns _, fs1) \<Rightarrow>
          (Returns (Some (unique_name_of e (secure_filename cn))),
           \<lparr>files = snd (remove_tmp e (tmp_name_of e (secure_filename cn)) fs1), log = log d\<rparr>))"
proof -
  let ?t = "tmp_name_of e (secure_filename cn)"
  obtain o1 fs1 where p: "process_upload e (stream f) ?t
      (unique_name_of e (secure_filename cn)) tw th (files d) = (o1, fs1)"
    by (cases "process_upload e (stream f) ?t (unique_name_of e (secure_filename cn)) tw th (files d)")
  obtain fs2 where r: "remove_tmp e ?t fs1 = (Returns (), fs2)"
    using remove_tmp_returns [of e ?t fs1] by blast
  show ?thesis
    using assms p r by (cases o1) (simp_all add: save_and_crop_image_def Let_def)
qed

lemma save_and_crop_image_rejects:
  "upload = None \<or> filename (the upload) = None \<or> filename (the upload) = Some []
     \<or> (\<exists>cn. filename (the upload) = Some cn \<and> \<not> allowed_file (secure_filename cn))
   \<Longrightarrow> save_and_crop_image e upload tw th d = (Returns None, d)"
  by (auto simp: save_and_crop_image_def Let_def split: option.splits)

lemma save_and_crop_image_never_raises:
  "\<exists>r d'. save_and_crop_image e upload tw th d = (Returns r, d')
     \<and> (log d' = log d \<or> (r = None \<and> (\<exists>x. log d' = log d @ [Image_processing_error x])))"
proof (cases "\<exists>f cn. upload = Some f \<and> filename f = Some cn \<and> cn \<noteq> [] \<and> allowed_file (secure_filename cn)")
  case True
  then obtain f cn where u: "upload = Some f" and a: "filename f = Some cn" "cn \<noteq> []"
    "allowed_file (secure_filename cn)" by blast
  show ?thesis
    unfolding u save_and_crop_image_allowed [OF a]
    by (auto split: prod.splits outcome.splits)
next
  case False
  then have "save_and_crop_image e upload tw th d = (Returns None, d)"
    by (intro save_and_crop_image_rejects) (cases upload; cases "filename (the upload)"; auto)
  then show ?thesis by simp
qed

lemma split_last:
  assumes "c \<in> set s"
  shows "before_last c s @ c # after_last c s = s"
proof -
  let ?P = "\<lambda>x. x \<noteq> c"
  have "c \<in> set (rev s)" using assms by simp
  then have ne: "dropWhile ?P (rev s) \<noteq> []" by (simp add: dropWhile_eq_Nil_conv)
  then have hd: "hd (dropWhile ?P (rev s)) = c" using hd_dropWhile [of ?P "rev s"] by simp
  have "rev s = takeWhile ?P (rev s) @ dropWhile ?P (rev s)" by simp
  also have "dropWhile ?P (rev s) = c # drop 1 (dropWhile ?P (rev s))"
    using ne hd by (cases "dropWhile ?P (rev s)") simp_all
  finally have "rev (rev s) = rev (takeWhile ?P (rev s) @ c # drop 1 (dropWhile ?P (rev s)))"
    by simp
  then show ?thesis by (simp add: before_last_def after_last_def)
qed

lemma after_last_absent: "c \<notin> set s \<Longrightarrow> after_last c s = s"
proof -
  assume "c \<notin> set s"
  then have "takeWhile (\<lambda>x. x \<noteq> c) (rev s) = rev s"
    by (intro takeWhile_eq_all_conv [THEN iffD2]) auto
  then show ?thesis by (simp only: after_last_def rev_rev_ident)
qed

lemma after_last_append: "c \<in> set ys \<Longrightarrow> after_last c (xs @ ys) = after_last c ys"
  by (simp add: after_last_def takeWhile_append1 [where x = c])

lemma after_last_of_base:
  assumes "c \<in> set (after_last sep p)"
  shows "after_last c (after_last sep p) = after_last c p"
proof (cases "sep \<in> set p")
  case True
  from split_last [OF True] have "p = (before_last sep p @ [sep]) @ after_last sep p" by simp
  then have "after_last c p = after_last c ((before_last sep p @ [sep]) @ after_last sep p)" by simp
  also have "\<dots> = after_last c (after_last sep p)" using assms by (rule after_last_append)
  finally show ?thesis by simp
next
  case False
  then show ?thesis by (simp add: after_last_absent)
qed

lemma set_after_last: "set (after_last c s) \<subseteq> set s"
  by (auto simp: after_last_def dest: set_takeWhileD)

lemma splitext_append: "fst (splitext p) @ snd (splitext p) = p"
proof (cases "CHR ''.'' \<in> set (after_last (CHR ''/'') p)")
  case True
  then have "CHR ''.'' \<in> set p" using set_after_last by fastforce
  then show ?thesis
    using True by (simp add: splitext_def Let_def after_last_of_base split_last)
next
  case False
  then show ?thesis by (simp add: splitext_def Let_def)
qed

lemma names_differ:
  assumes "length (uuid1 e) = length (uuid2 e)" "uuid1 e \<noteq> uuid2 e"
  shows "tmp_name_of e n \<noteq> unique_name_of e n"
  using assms by (auto simp: tmp_name_of_def unique_name_of_def)

lemma save_and_crop_image_success:
  assumes "filename f = Some cn" "cn \<noteq> []" "allowed_file (secure_filename cn)"
    and "save_outcome e = Written" "decode e (stream f) = Some (w, h)"
    and "scaled_size w h tw th = Inr ns" "resize_ok e ns" "crop_ok e (crop_box ns tw th)"
    and "encode_outcome e = Written"
  shows "save_and_crop_image e (Some f) tw th d =
     (Returns (Some (unique_name_of e (secure_filename cn))),
      \<lparr>files = snd (remove_tmp e (tmp_name_of e (secure_filename cn))
                 ((files d)(tmp_name_of e (secure_filename cn) \<mapsto> Raw_upload (stream f),
                            unique_name_of e (secure_filename cn) \<mapsto> Jpeg_image 90 tw th))),
       log = log d\<rparr>)"
proof -
  obtain l tp r b where cb: "crop_box ns tw th = (l, tp, r, b)" by (cases "crop_box ns tw th") auto
  have "process_upload e (stream f) (tmp_name_of e (secure_filename cn))
          (unique_name_of e (secure_filename cn)) tw th (files d) =
        (Returns (), (files d)(tmp_name_of e (secure_filename cn) \<mapsto> Raw_upload (stream f),
                            unique_name_of e (secure_filename cn) \<mapsto> Jpeg_image 90 tw th))"
    using assms(4-9) cb crop_box_size [OF cb]
    by (simp add: process_upload_def write_file_def)
  then show ?thesis by (simp add: save_and_crop_image_allowed [OF assms(1-3)])
qed

lemma example_names:
  "secure_filename ''photo.png'' = ''photo.png''"
  "secure_filename ''photo.png.'' = ''photo.png''"
  "secure_filename ''notes.txt'' = ''notes.txt''"
  "allowed_file ''photo.png''"
  "\<not> allowed_file ''photo.png.''"
  "\<not> allowed_file ''notes.txt''"
  "splitext ''photo.png'' = (''photo'', ''.png'')"
  by code_simp+

text \<open>
  Names with letters beyond ASCII: the accented letter is kept as its base letter,
  so \<^verbatim>\<open>x.png\<close> followed by an accented e has the extension \<^verbatim>\<open>pnge\<close>.
\<close>

lemma secure_filename_accents:
  "secure_filename (CHR 0xE9 # ''.png'') = ''e.png''"
  "secure_filename (''a'' @ [CHR 0xE9] @ ''.png'') = ''ae.png''"
  "secure_filename (''x.png'' @ [CHR 0xE9]) = ''x.pnge''"
  "secure_filename (''a'' @ [CHR 0xA0] @ ''b.png'') = ''a_b.png''"
  "allowed_file (secure_filename (CHR 0xE9 # ''.png''))"
  "\<not> allowed_file (secure_filename (''x.png'' @ [CHR 0xE9]))"
  by code_simp+

lemma example_run:
  assumes "cn = ''photo.png'' \<or> cn = ''photo.png.''"
    and "save_outcome e = Written" "decode e ''image bytes'' = Some (w, h)"
    and "scaled_size w h 450 350 = Inr ns" "resize_ok e ns" "crop_ok e (crop_box ns 450 350)"
    and "encode_outcome e = Written"
    and "uuid1 e = ''0123456789abcdef0123456789abcdef''"
    and "uuid2 e = ''fedcba9876543210fedcba9876543210''"
  shows "save_and_crop_image e (Some (example_upload cn)) 450 350 empty_disk =
     (Returns (Some ''photo_0123456789abcdef0123456789abcdef.jpg''),
      \<lparr>files = snd (remove_tmp e ''photo_fedcba9876543210fedcba9876543210.png''
                 [''photo_fedcba9876543210fedcba9876543210.png'' \<mapsto> Raw_upload ''image bytes'',
                  ''photo_0123456789abcdef0123456789abcdef.jpg'' \<mapsto> Jpeg_image 90 450 350]),
       log = []\<rparr>)"
proof -
  have s: "secure_filename cn = ''photo.png''" and n: "cn \<noteq> []"
    using assms(1) example_names by auto
  have f: "filename (example_upload cn) = Some cn" "stream (example_upload cn) = ''image bytes''"
    by (simp_all add: example_upload_def)
  have a: "allowed_file (secure_filename cn)" using s example_names by simp
  show ?thesis
    using save_and_crop_image_success [OF f(1) n a assms(2), of w h 450 350 ns empty_disk]
      assms(3-9)
    by (simp add: f s unique_name_of_def tmp_name_of_def example_names empty_disk_def)
qed

section \<open>The stored file\<close>

text \<open>
  Claim C7. When the image pipeline returns a file name, the name is the sanitized
  file name without its extension, then \<^verbatim>\<open>_\<close>, the first random hex string and
  \<^verbatim>\<open>.jpg\<close>, whatever the extension of the upload was, and the file of that name in
  the upload folder is a JPEG of quality 90 with the target size. No retry is made:
  the two hex strings are taken as they come, and the theorem asks of them only that
  they differ and have the same length, as two values of \<^verbatim>\<open>uuid4().hex\<close> do.
\<close>

theorem stored_name_and_encoding:
  assumes "save_and_crop_image e (Some f) tw th d = (Returns (Some n), d')"
    and "filename f = Some cn"
    and "length (uuid1 e) = length (uuid2 e)" and "uuid1 e \<noteq> uuid2 e"
  shows "n = fst (splitext (secure_filename cn)) @ ''_'' @ uuid1 e @ ''.jpg''
    \<and> fst (splitext (secure_filename cn)) @ snd (splitext (secure_filename cn)) = secure_filename cn
    \<and> files d' n = Some (Jpeg_image 90 tw th)"
proof -
  let ?sn = "secure_filename cn"
  let ?t = "tmp_name_of e ?sn" and ?u = "unique_name_of e ?sn"
  have ok: "cn \<noteq> []" "allowed_file ?sn"
    using assms(1,2) save_and_crop_image_rejects [of "Some f" e tw th d] by auto
  obtain o1 fs1 where p: "process_upload e (stream f) ?t ?u tw th (files d) = (o1, fs1)"
    by (cases "process_upload e (stream f) ?t ?u tw th (files d)")
  from assms(1) p have o1: "o1 = Returns ()" and n: "n = ?u"
    and d': "files d' = snd (remove_tmp e ?t fs1)"
    by (cases o1; auto simp: save_and_crop_image_allowed [OF assms(2) ok])+
  have fs1: "fs1 = (files d)(?t \<mapsto> Raw_upload (stream f), ?u \<mapsto> Jpeg_image 90 tw th)"
    using p o1 process_upload_returns by blast
  have ne: "?t \<noteq> ?u" using assms(3,4) by (rule names_differ)
  have "files d' ?u = fs1 ?u"
    using remove_tmp_returns [of e ?t fs1] d' ne by auto
  then have "files d' n = Some (Jpeg_image 90 tw th)" using fs1 n by simp
  then show ?thesis using n splitext_append by (simp add: unique_name_of_def)
qed

theorem stored_name_and_encoding_witness:
  "save_and_crop_image example_env (Some (example_upload ''photo.png'')) 450 350 empty_disk =
     (Returns (Some ''photo_0123456789abcdef0123456789abcdef.jpg''),
      \<lparr>files = [''photo_0123456789abcdef0123456789abcdef.jpg'' \<mapsto> Jpeg_image 90 450 350],
       log = []\<rparr>)
   \<and> length (uuid1 example_env) = length (uuid2 example_env)
   \<and> uuid1 example_env \<noteq> uuid2 example_env
   \<and> ''photo_0123456789abcdef0123456789abcdef.jpg'' =
       fst (splitext (secure_filename ''photo.png'')) @ ''_'' @ uuid1 example_env @ ''.jpg''
   \<and> [''photo_0123456789abcdef0123456789abcdef.jpg'' \<mapsto> Jpeg_image 90 450 350]
        ''photo_0123456789abcdef0123456789abcdef.jpg'' = Some (Jpeg_image 90 450 350)"
proof -
  have run: "save_and_crop_image example_env (Some (example_upload ''photo.png'')) 450 350 empty_disk =
     (Returns (Some ''photo_0123456789abcdef0123456789abcdef.jpg''),
      \<lparr>files = [''photo_0123456789abcdef0123456789abcdef.jpg'' \<mapsto> Jpeg_image 90 450 350],
       log = []\<rparr>)"
    by (subst example_run [where w = 900 and h = 350 and ns = "(900, 350)"])
      (auto simp: example_env_def scaled_size_900_350 remove_tmp_def os_remove_def
        os_path_exists_def fun_upd_twist)
  have f: "filename (example_upload ''photo.png'') = Some ''photo.png''"
    by (simp add: example_upload_def)
  have u: "length (uuid1 example_env) = length (uuid2 example_env)"
    "uuid1 example_env \<noteq> uuid2 example_env"
    by (simp_all add: example_env_def)
  show ?thesis
    using stored_name_and_encoding [OF run f u] run u by simp
qed

section \<open>The extension allow-list\<close>

text \<open>
  The file name \<^verbatim>\<open>photo.png.\<close> ends in a dot: what follows its last dot is empty,
  which is not an allowed extension. The pipeline sanitizes the name first, which
  strips the dot, and then stores the image.
\<close>

theorem disallowed_extension_counterexample:
  "\<not> (CHR ''.'' \<in> set ''photo.png.''
       \<and> lower (after_last (CHR ''.'') ''photo.png.'') \<in> {''png'', ''jpg'', ''jpeg'', ''gif''})
   \<and> fst (save_and_crop_image example_env (Some (example_upload ''photo.png.'')) 450 350 empty_disk)
       = Returns (Some ''photo_0123456789abcdef0123456789abcdef.jpg'')
   \<and> files empty_disk ''photo_0123456789abcdef0123456789abcdef.jpg'' = None
   \<and> files (snd (save_and_crop_image example_env (Some (example_upload ''photo.png.'')) 450 350
         empty_disk)) ''photo_0123456789abcdef0123456789abcdef.jpg''
       = Some (Jpeg_image 90 450 350)"
proof -
  have "save_and_crop_image example_env (Some (example_upload ''photo.png.'')) 450 350 empty_disk =
     (Returns (Some ''photo_0123456789abcdef0123456789abcdef.jpg''),
      \<lparr>files = [''photo_0123456789abcdef0123456789abcdef.jpg'' \<mapsto> Jpeg_image 90 450 350],
       log = []\<rparr>)"
    by (subst example_run [where w = 900 and h = 350 and ns = "(900, 350)"])
      (auto simp: example_env_def scaled_size_900_350 remove_tmp_def os_remove_def
        os_path_exists_def fun_upd_twist)
  moreover have "\<not> allowed_file ''photo.png.''" by (rule example_names)
  ultimately show ?thesis
    by (simp add: allowed_file_def ALLOWED_EXTENSIONS_def empty_disk_def)
qed

text \<open>
  Claim C3, amended. The allow-list is applied to the sanitized file name
  (\<^verbatim>\<open>secure_filename\<close> of the name the client supplied): when the sanitized name
  contains no dot, or what follows its last dot is not one of \<^verbatim>\<open>png\<close>, \<^verbatim>\<open>jpg\<close>,
  \<^verbatim>\<open>jpeg\<close>, \<^verbatim>\<open>gif\<close> in any letter case, the pipeline returns \<^verbatim>\<open>None\<close> and leaves
  the upload folder and the log as they were.
\<close>

theorem disallowed_extension_rejected:
  assumes "filename f = Some cn"
    and "CHR ''.'' \<notin> set (secure_filename cn)
      \<or> lower (after_last (CHR ''.'') (secure_filename cn)) \<notin> {''png'', ''jpg'', ''jpeg'', ''gif''}"
  shows "save_and_crop_image e (Some f) tw th d = (Returns None, d)"
proof -
  have "\<not> allowed_file (secure_filename cn)"
    using assms(2) by (auto simp: allowed_file_def ALLOWED_EXTENSIONS_def)
  then show ?thesis
    using assms(1) by (intro save_and_crop_image_rejects) simp
qed

theorem disallowed_extension_rejected_witness:
  "filename (example_upload ''notes.txt'') = Some ''notes.txt''
   \<and> lower (after_last (CHR ''.'') (secure_filename ''notes.txt'')) \<notin> {''png'', ''jpg'', ''jpeg'', ''gif''}
   \<and> save_and_crop_image example_env (Some (example_upload ''notes.txt'')) 450 350 empty_disk
       = (Returns None, empty_disk)"
proof -
  have f: "filename (example_upload ''notes.txt'') = Some ''notes.txt''"
    by (simp add: example_upload_def)
  have x: "lower (after_last (CHR ''.'') (secure_filename ''notes.txt'')) \<notin> {''png'', ''jpg'', ''jpeg'', ''gif''}"
    using example_names(3,6) by (simp add: allowed_file_def ALLOWED_EXTENSIONS_def)
  show ?thesis
    using disallowed_extension_rejected [OF f disjI2 [OF x], of example_env 450 350 empty_disk] f x
    by simp
qed

section \<open>The temporary file\<close>

text \<open>
  When \<^verbatim>\<open>os.remove\<close> fails, the call still returns the stored name, the temporary
  file stays in the upload folder, and nothing is logged.
\<close>

theorem temp_file_survives_counterexample:
  "fst (save_and_crop_image (example_env\<lparr>remove_ok := (\<lambda>path. False)\<rparr>)
          (Some (example_upload ''photo.png'')) 450 350 empty_disk)
     = Returns (Some ''photo_0123456789abcdef0123456789abcdef.jpg'')
   \<and> files (snd (save_and_crop_image (example_env\<lparr>remove_ok := (\<lambda>path. False)\<rparr>)
          (Some (example_upload ''photo.png'')) 450 350 empty_disk))
        ''photo_fedcba9876543210fedcba9876543210.png'' = Some (Raw_upload ''image bytes'')
   \<and> log (snd (save_and_crop_image (example_env\<lparr>remove_ok := (\<lambda>path. False)\<rparr>)
          (Some (example_upload ''photo.png'')) 450 350 empty_disk)) = []"
  by (subst example_run [where w = 900 and h = 350 and ns = "(900, 350)"],
      simp_all add: example_env_def scaled_size_900_350 remove_tmp_def os_remove_def
        os_path_exists_def)+

text \<open>
  Claim C4, amended. The image pipeline never raises: it returns a file name or
  \<^verbatim>\<open>None\<close>. It logs nothing, or it returns \<^verbatim>\<open>None\<close> and logs one line, the
  processing error; a failure to remove the temporary file is dropped without a log
  line. For an upload that passes the allow-list, the temporary file is absent from
  the upload folder after the call whenever \<^verbatim>\<open>os.remove\<close> does not fail on it, on the
  success path and on every failure path; and an exception in saving, decoding,
  resizing, cropping or encoding makes the call return \<^verbatim>\<open>None\<close> and log that
  exception.
\<close>

theorem temp_file_cleanup:
  "\<exists>r d'. save_and_crop_image e upload tw th d = (Returns r, d')
     \<and> (log d' = log d \<or> (r = None \<and> (\<exists>x. log d' = log d @ [Image_processing_error x])))
     \<and> (\<forall>f cn. upload = Some f \<and> filename f = Some cn \<and> cn \<noteq> []
            \<and> allowed_file (secure_filename cn)
            \<and> remove_ok e (tmp_name_of e (secure_filename cn))
          \<longrightarrow> files d' (tmp_name_of e (secure_filename cn)) = None)
     \<and> (\<forall>f cn x fs1. upload = Some f \<and> filename f = Some cn \<and> cn \<noteq> []
            \<and> allowed_file (secure_filename cn)
            \<and> process_upload e (stream f) (tmp_name_of e (secure_filename cn))
                 (unique_name_of e (secure_filename cn)) tw th (files d) = (Raises x, fs1)
          \<longrightarrow> r = None \<and> log d' = log d @ [Image_processing_error x])"
proof -
  obtain r d' where run: "save_and_crop_image e upload tw th d = (Returns r, d')"
    and lg: "log d' = log d \<or> (r = None \<and> (\<exists>x. log d' = log d @ [Image_processing_error x]))"
    using save_and_crop_image_never_raises [of e upload tw th d] by blast
  have gone: "files d' (tmp_name_of e (secure_filename cn)) = None"
    if "upload = Some f" "filename f = Some cn" "cn \<noteq> []" "allowed_file (secure_filename cn)"
      "remove_ok e (tmp_name_of e (secure_filename cn))" for f cn
  proof -
    let ?t = "tmp_name_of e (secure_filename cn)"
    have "\<exists>fs1. files d' = snd (remove_tmp e ?t fs1)"
      using run that(1) save_and_crop_image_allowed [OF that(2-4), of e tw th d]
      by (auto split: prod.splits outcome.splits)
    then show ?thesis using remove_tmp_returns [of e ?t] that(5) by (metis fun_upd_same snd_conv)
  qed
  have err: "r = None \<and> log d' = log d @ [Image_processing_error x]"
    if "upload = Some f" "filename f = Some cn" "cn \<noteq> []" "allowed_file (secure_filename cn)"
      "process_upload e (stream f) (tmp_name_of e (secure_filename cn))
         (unique_name_of e (secure_filename cn)) tw th (files d) = (Raises x, fs1)" for f cn x fs1
    using run that(1,5) save_and_crop_image_allowed [OF that(2-4), of e tw th d] by auto
  show ?thesis using run lg gone err by blast
qed

theorem temp_file_cleanup_witness:
  "save_and_crop_image (example_env\<lparr>decode := (\<lambda>bytes. None)\<rparr>)
      (Some (example_upload ''photo.png'')) 450 350 empty_disk
     = (Returns None, \<lparr>files = Map.empty, log = [Image_processing_error UnidentifiedImageError]\<rparr>)"
proof -
  let ?e = "example_env\<lparr>decode := (\<lambda>bytes. None)\<rparr>"
  have f: "filename (example_upload ''photo.png'') = Some ''photo.png''"
    "stream (example_upload ''photo.png'') = ''image bytes''"
    by (simp_all add: example_upload_def)
  have t: "tmp_name_of ?e ''photo.png'' = ''photo_fedcba9876543210fedcba9876543210.png''"
    by (simp add: tmp_name_of_def example_names example_env_def)
  have p: "process_upload ?e ''image bytes'' (tmp_name_of ?e ''photo.png'')
      (unique_name_of ?e ''photo.png'') 450 350 (files empty_disk)
    = (Raises UnidentifiedImageError, [tmp_name_of ?e ''photo.png'' \<mapsto> Raw_upload ''image bytes''])"
    by (simp add: process_upload_def write_file_def example_env_def empty_disk_def)
  obtain r d' where run: "save_and_crop_image ?e (Some (example_upload ''photo.png'')) 450 350 empty_disk = (Returns r, d')"
    and gone: "files d' (tmp_name_of ?e ''photo.png'') = None"
    and err: "r = None" "log d' = log empty_disk @ [Image_processing_error UnidentifiedImageError]"
    using temp_file_cleanup [of ?e "Some (example_upload ''photo.png'')" 450 350 empty_disk] p f
      example_names(1,4)
    by (auto simp: example_env_def)
  have "files d' = snd (remove_tmp ?e (tmp_name_of ?e ''photo.png'')
      [tmp_name_of ?e ''photo.png'' \<mapsto> Raw_upload ''image bytes''])"
    using run p f example_names(1,4)
      save_and_crop_image_allowed [of "example_upload ''photo.png''" "''photo.png''" ?e 450 350 empty_disk]
    by auto
  then have "files d' = Map.empty"
    by (simp add: remove_tmp_def os_path_exists_def os_remove_def example_env_def)
  then have "d' = \<lparr>files = Map.empty, log = [Image_processing_error UnidentifiedImageError]\<rparr>"
    using err by (cases d') (simp add: empty_disk_def)
  then show ?thesis using run err by simp
qed

section \<open>The scaled size can fall short of the target\<close>

text \<open>
  Claim C1, on an image of 873 by 679 pixels and the target 450 by 350. The image
  has the ratio of the target, so the width is matched; \<^verbatim>\<open>450 / 873\<close> rounds down as
  a float, the product with 679 rounds to the float just below 350, and \<^verbatim>\<open>int()\<close>
  gives the height 349. The crop box starts at row \<open>- 1\<close>, outside the scaled image.
  The pipeline succeeds all the same, and the stored image has the target size.
\<close>

theorem scaled_height_below_target:
  "scaled_size 873 679 450 350 = Inr (450, 349)
   \<and> crop_box (450, 349) 450 350 = (0, - 1, 450, 349)
   \<and> \<not> box_inside (crop_box (450, 349) 450 350) (450, 349)
   \<and> save_and_crop_image (example_env\<lparr>decode := (\<lambda>bytes. Some (873, 679))\<rparr>)
        (Some (example_upload ''photo.png'')) 450 350 empty_disk =
       (Returns (Some ''photo_0123456789abcdef0123456789abcdef.jpg''),
        \<lparr>files = [''photo_0123456789abcdef0123456789abcdef.jpg'' \<mapsto> Jpeg_image 90 450 350],
         log = []\<rparr>)"
proof -
  have "save_and_crop_image (example_env\<lparr>decode := (\<lambda>bytes. Some (873, 679))\<rparr>)
        (Some (example_upload ''photo.png'')) 450 350 empty_disk =
       (Returns (Some ''photo_0123456789abcdef0123456789abcdef.jpg''),
        \<lparr>files = [''photo_0123456789abcdef0123456789abcdef.jpg'' \<mapsto> Jpeg_image 90 450 350],
         log = []\<rparr>)"
    by (subst example_run [where w = 873 and h = 679 and ns = "(450, 349)"])
      (auto simp: example_env_def scaled_size_873_679 remove_tmp_def os_remove_def
        os_path_exists_def fun_upd_twist)
  then show ?thesis
    by (simp add: scaled_size_873_679 crop_box_def box_inside_def)
qed

section \<open>Deleting a project or a client\<close>









section \<open>A failed image does not stop the insert\<close>

lemma store_image_returns:
  "\<exists>r d. save_and_crop_image e image_file 450 350 (uploads s) = (Returns r, d)
     \<and> store_image e image_file s =
         (Returns (if has_image image_file then r else None),
          if has_image image_file then s\<lparr>uploads := d\<rparr> else s)
     \<and> (log d = log (uploads s)
         \<or> (r = None \<and> (\<exists>x. log d = log (uploads s) @ [Image_processing_error x])))"
  using save_and_crop_image_never_raises [of e image_file 450 350 "uploads s"]
  by (auto simp: store_image_def)



lemma house_form_fields:
  "strip (form_get house_form ''name'') = ''Lake House''"
  "strip (form_get house_form ''description'') = ''Three bedrooms''"
  "strip (form_get blank_name_form ''name'') = []"
  "strip (form_get blank_name_form ''description'') = ''Three bedrooms''"
  by (simp_all add: house_form_def blank_name_form_def form_get_def strip_def strip_chars_def
      isspace_def)

lemma has_image_example: "has_image (Some (example_upload ''photo.png''))"
  by (simp add: has_image_def example_upload_def)


section \<open>A rejected form\<close>

text \<open>
  A form with a required field that is missing, empty or white space inserts no row
  in any of the four handlers and flashes the error message.
\<close>

lemma rejected_form_inserts_nothing:
  "strip (form_get form ''full_name'') = [] \<or> strip (form_get form ''email'') = []
     \<or> strip (form_get form ''mobile'') = [] \<or> strip (form_get form ''city'') = [] \<Longrightarrow>
   contact_submit form now s =
     (Redirect ''index'', s\<lparr>flashes := flashes s @ [(''Please fill all contact form fields.'', error)]\<rparr>)"
  "strip (form_get form ''email'') = [] \<Longrightarrow>
   subscribe form now s =
     (Redirect ''index'', s\<lparr>flashes := flashes s @ [(''Please enter an email address.'', error)]\<rparr>)"
  "strip (form_get form ''name'') = [] \<or> strip (form_get form ''description'') = [] \<Longrightarrow>
   \<exists>s'. admin_projects e POST form image_file s = (Returns (Render ''admin/projects.html''), s')
     \<and> projects s' = projects s \<and> clients s' = clients s \<and> contacts s' = contacts s
     \<and> subscriptions s' = subscriptions s
     \<and> flashes s' = flashes s @ [(''Please provide project name and description.'', error)]"
  "strip (form_get form ''name'') = [] \<or> strip (form_get form ''designation'') = []
     \<or> strip (form_get form ''description'') = [] \<Longrightarrow>
   \<exists>s'. admin_clients e POST form image_file s = (Returns (Render ''admin/clients.html''), s')
     \<and> projects s' = projects s \<and> clients s' = clients s \<and> contacts s' = contacts s
     \<and> subscriptions s' = subscriptions s
     \<and> flashes s' = flashes s @ [(''Please provide client name, designation and description.'', error)]"
proof -
  obtain r d where st: "store_image e image_file s =
         (Returns (if has_image image_file then r else None),
          if has_image image_file then s\<lparr>uploads := d\<rparr> else s)"
    using store_image_returns [of e image_file s] by blast
  show "strip (form_get form ''name'') = [] \<or> strip (form_get form ''description'') = [] \<Longrightarrow>
   \<exists>s'. admin_projects e POST form image_file s = (Returns (Render ''admin/projects.html''), s')
     \<and> projects s' = projects s \<and> clients s' = clients s \<and> contacts s' = contacts s
     \<and> subscriptions s' = subscriptions s
     \<and> flashes s' = flashes s @ [(''Please provide project name and description.'', error)]"
    using st by (auto simp: admin_projects_def Let_def flash_def)
  show "strip (form_get form ''name'') = [] \<or> strip (form_get form ''designation'') = []
     \<or> strip (form_get form ''description'') = [] \<Longrightarrow>
   \<exists>s'. admin_clients e POST form image_file s = (Returns (Render ''admin/clients.html''), s')
     \<and> projects s' = projects s \<and> clients s' = clients s \<and> contacts s' = contacts s
     \<and> subscriptions s' = subscriptions s
     \<and> flashes s' = flashes s @ [(''Please provide client name, designation and description.'', error)]"
    using st by (auto simp: admin_clients_def Let_def flash_def)
qed (auto simp: contact_submit_def subscribe_def Let_def flash_def)

text \<open>
  Claim C5, on \<^verbatim>\<open>/admin/projects\<close> with a name of spaces only and an image
  attached. The handler calls the image pipeline before it looks at the fields
  (lines 221 to 226): no row is inserted and the error message is flashed, but the
  processed image has been written to the upload folder, where no row refers to it.
\<close>

theorem blank_name_still_stores_image:
  "strip (form_get blank_name_form ''name'') = []
   \<and> files (uploads initial_state) ''photo_0123456789abcdef0123456789abcdef.jpg'' = None
   \<and> admin_projects example_env POST blank_name_form (Some (example_upload ''photo.png''))
        initial_state =
       (Returns (Render ''admin/projects.html''),
        initial_state
          \<lparr>uploads :=
             \<lparr>files = [''photo_0123456789abcdef0123456789abcdef.jpg'' \<mapsto> Jpeg_image 90 450 350],
              log = []\<rparr>,
           flashes := [(''Please provide project name and description.'', error)]\<rparr>)"
proof -
  have u: "uploads initial_state = empty_disk" by (simp add: initial_state_def empty_disk_def)
  have run: "save_and_crop_image example_env (Some (example_upload ''photo.png'')) 450 350
       (uploads initial_state) =
     (Returns (Some ''photo_0123456789abcdef0123456789abcdef.jpg''),
      \<lparr>files = [''photo_0123456789abcdef0123456789abcdef.jpg'' \<mapsto> Jpeg_image 90 450 350],
       log = []\<rparr>)"
    unfolding u
    by (subst example_run [where w = 900 and h = 350 and ns = "(900, 350)"])
      (auto simp: example_env_def scaled_size_900_350 remove_tmp_def os_remove_def
        os_path_exists_def fun_upd_twist)
  show ?thesis
    using run has_image_example
    by (simp add: admin_projects_def store_image_def Let_def house_form_fields flash_def
        initial_state_def)
qed

end
